theory Spec2Isabelle
  imports Complex_Main
begin

section \<open>JavaScript values and containers\<close>

text \<open>
  The service is written in TypeScript. Values that travel through it untyped
  (\<^verbatim>\<open>any\<close>, \<^verbatim>\<open>unknown\<close>) are modelled by \<open>jsval\<close>. A JavaScript number is
  carried as a rational: the model never computes on it beyond comparing it with
  bounds; arithmetic belongs to the expression library, which is a parameter.
  \<open>VFunction\<close> is a function value, such as a method an object inherits.
\<close>

datatype jsval =
    VUndefined
  | VNull
  | VBool bool
  | VNum rat
  | VStr string
  | VArr "jsval list"
  | VObject "(string \<times> jsval) list"
  | VRegExp string
  | VFunction

text \<open>JavaScript truthiness, as used by \<^verbatim>\<open>!x\<close>, \<^verbatim>\<open>x && y\<close> and \<^verbatim>\<open>x || y\<close>.\<close>

fun truthy :: "jsval \<Rightarrow> bool" where
  "truthy VUndefined = False"
| "truthy VNull = False"
| "truthy (VBool b) = b"
| "truthy (VNum r) = (r \<noteq> 0)"
| "truthy (VStr s) = (s \<noteq> [])"
| "truthy (VArr xs) = True"
| "truthy (VObject ps) = True"
| "truthy (VRegExp p) = True"
| "truthy VFunction = True"

text \<open>
  A \<^verbatim>\<open>Set<string>\<close> iterates in insertion order and holds no duplicates: a list.
\<close>

type_synonym 'a jsset = "'a list"

definition set_has :: "'a jsset \<Rightarrow> 'a \<Rightarrow> bool" where
  "set_has s x = (x \<in> set s)"

definition set_add :: "'a jsset \<Rightarrow> 'a \<Rightarrow> 'a jsset" where
  "set_add s x = (if x \<in> set s then s else s @ [x])"

definition set_delete :: "'a jsset \<Rightarrow> 'a \<Rightarrow> 'a jsset" where
  "set_delete s x = filter (\<lambda>y. y \<noteq> x) s"

text \<open>
  A \<^verbatim>\<open>Map<K, V>\<close> iterates its keys in the order of their first insertion; setting
  a key that is present replaces the value in place.
\<close>

type_synonym ('k, 'v) jsmap = "('k \<times> 'v) list"

definition map_has :: "('k, 'v) jsmap \<Rightarrow> 'k \<Rightarrow> bool" where
  "map_has m k = (map_of m k \<noteq> None)"

definition map_get :: "('k, 'v) jsmap \<Rightarrow> 'k \<Rightarrow> 'v option" where
  "map_get m k = map_of m k"

fun map_set :: "('k, 'v) jsmap \<Rightarrow> 'k \<Rightarrow> 'v \<Rightarrow> ('k, 'v) jsmap" where
  "map_set [] k v = [(k, v)]"
| "map_set ((k', v') # m) k v =
     (if k' = k then (k, v) # m else (k', v') # map_set m k v)"

definition map_keys :: "('k, 'v) jsmap \<Rightarrow> 'k list" where
  "map_keys m = map fst m"

text \<open>\<^verbatim>\<open>Array.prototype.indexOf\<close> (\<open>-1\<close> when absent) and \<^verbatim>\<open>slice(start)\<close>
  (a negative start counts from the end).\<close>

fun indexOf :: "'a list \<Rightarrow> 'a \<Rightarrow> int" where
  "indexOf [] x = - 1"
| "indexOf (y # ys) x =
     (if y = x then 0 else (let i = indexOf ys x in if i < 0 then - 1 else i + 1))"

definition slice :: "'a list \<Rightarrow> int \<Rightarrow> 'a list" where
  "slice xs start =
     (if start < 0 then drop (nat (int (length xs) + start)) xs else drop (nat start) xs)"

text \<open>\<^verbatim>\<open>String.prototype.split(sep)\<close> for a one-character separator.\<close>

fun split :: "char \<Rightarrow> string \<Rightarrow> string list" where
  "split c [] = [[]]"
| "split c (x # xs) =
     (if x = c then [] # split c xs
      else (case split c xs of p # ps \<Rightarrow> (x # p) # ps | [] \<Rightarrow> [[x]]))"

text \<open>Decimal rendering of a non-negative integer, as a template literal does.\<close>

definition digit_char :: "nat \<Rightarrow> char" where
  "digit_char d = ''0123456789'' ! d"

fun string_of_nat :: "nat \<Rightarrow> string" where
  "string_of_nat n =
     (if n < 10 then [digit_char n]
      else string_of_nat (n div 10) @ [digit_char (n mod 10)])"

declare string_of_nat.simps [simp del]

section \<open>Errors\<close>

text \<open>
  Every \<^verbatim>\<open>throw new Error(...)\<close> of the source is one constructor, named after its
  message; the interpolated parts of the message are the constructor's arguments.
  A zod parse failure carries its issues.
\<close>

datatype zmsg =
    Mensagem string
  | TamanhoMinimoE rat
  | FormatoInvalido
  | ValorMinimoE rat
  | ValorMaximoE rat
  | DataInvalida
  | DataDeveSerApos string
  | DataDeveSerAntes string
  | OpcaoInvalida
  | CamposCalculadosSemValorManual
  | DefaultMessage

datatype zissue =
    InvalidType string
  | TooSmall zmsg
  | TooBig zmsg
  | NotInteger
  | InvalidString zmsg
  | Custom zmsg

datatype error =
    FormularioNaoEncontrado
  | FormularioInativo
  | VersaoSchemaNaoMaior int int
  | VersaoSchemaDesatualizada
  | ExpressaoCondicionalInvalida string
  | DependenciaCircular string
  | CampoCalculadoDeveTerFormula
  | UnsupportedFieldType string
  | CampoCalculadoRequerFormula string
  | DependenciasAusentes string "string list"
  | AvaliacaoFormulaFalhou string
  | ZodError "zissue list"
  | TypeError string
  | PersistenceError
  | SourceNodeNotFound string
  | DestinationNodeNotFound string

section \<open>Dependency graph\<close>

text \<open>
  Class \<^verbatim>\<open>Graph\<close>: an adjacency list \<^verbatim>\<open>Map<string, string[]>\<close>.
\<close>

type_synonym graph = "(string, string list) jsmap"

definition addNode :: "graph \<Rightarrow> string \<Rightarrow> graph" where
  "addNode g node = (if \<not> map_has g node then map_set g node [] else g)"

definition addEdge :: "graph \<Rightarrow> string \<Rightarrow> string \<Rightarrow> error + graph" where
  "addEdge g source destination =
     (if \<not> map_has g source then Inl (SourceNodeNotFound source)
      else if \<not> map_has g destination then Inl (DestinationNodeNotFound destination)
      else (case map_get g source of
              Some ns \<Rightarrow> Inr (map_set g source (ns @ [destination]))
            | None \<Rightarrow> Inr g))"

definition getNeighbors :: "graph \<Rightarrow> string \<Rightarrow> string list option" where
  "getNeighbors g node = map_get g node"

text \<open>
  The traversal state is the pair of the two sets that \<^verbatim>\<open>hasCycle\<close> allocates and
  \<^verbatim>\<open>detectCycleUtil\<close> mutates: \<open>(visited, recursionStack)\<close>. The function returns the
  cycle (or \<open>None\<close> for \<^verbatim>\<open>null\<close>) together with the state it leaves behind.
  \<open>detectCycleNeighbors\<close> is the \<^verbatim>\<open>for (const neighbor of neighbors)\<close> loop.
\<close>

type_synonym dfs_state = "string jsset \<times> string jsset"

function detectCycleUtil ::
    "graph \<Rightarrow> string \<Rightarrow> dfs_state \<Rightarrow> string list option \<times> dfs_state"
  and detectCycleNeighbors ::
    "graph \<Rightarrow> string list \<Rightarrow> dfs_state \<Rightarrow> string list option \<times> dfs_state"
where
  "detectCycleUtil g node (visited, recursionStack) =
     (if set_has recursionStack node then
        (let cycleStartIndex = indexOf recursionStack node;
             cycle = slice recursionStack cycleStartIndex
         in (Some (cycle @ [node]), (visited, recursionStack)))
      else if set_has visited node then (None, (visited, recursionStack))
      else
        (case detectCycleNeighbors g
                (case map_get g node of Some ns \<Rightarrow> ns | None \<Rightarrow> [])
                (set_add visited node, set_add recursionStack node) of
           (Some cycle, st) \<Rightarrow> (Some cycle, st)
         | (None, (visited', recursionStack')) \<Rightarrow>
             (None, (visited', set_delete recursionStack' node))))"
| "detectCycleNeighbors g [] st = (None, st)"
| "detectCycleNeighbors g (neighbor # rest) st =
     (case detectCycleUtil g neighbor st of
        (Some cycle, st') \<Rightarrow> (Some cycle, st')
      | (None, st') \<Rightarrow> detectCycleNeighbors g rest st')"
  by pat_completeness auto

text \<open>Every node the adjacency list mentions, as a key or as a neighbour.\<close>

definition graph_nodes :: "graph \<Rightarrow> string set" where
  "graph_nodes g = set (map fst g) \<union> (\<Union>ns \<in> set (map snd g). set ns)"

lemma finite_graph_nodes: "finite (graph_nodes g)"
  by (simp add: graph_nodes_def)

lemma map_get_nodes: "map_get g n = Some ns \<Longrightarrow> set ns \<subseteq> graph_nodes g"
  unfolding map_get_def graph_nodes_def
  by (auto dest!: map_of_SomeD intro!: bexI[where x="(n, ns)"])

lemma set_set_add: "set (set_add s x) = insert x (set s)"
  by (auto simp: set_add_def)

lemma detect_visited_mono_dom:
  "detectCycleUtil_detectCycleNeighbors_dom (Inl (g, node, st)) \<Longrightarrow>
     set (fst st) \<subseteq> set (fst (snd (detectCycleUtil g node st)))"
  "detectCycleUtil_detectCycleNeighbors_dom (Inr (g, ns, st)) \<Longrightarrow>
     set (fst st) \<subseteq> set (fst (snd (detectCycleNeighbors g ns st)))"
proof (induction rule: detectCycleUtil_detectCycleNeighbors.pinduct)
  case (1 g node visited recursionStack)
  then show ?case
    by (auto simp: detectCycleUtil.psimps set_set_add Let_def
        split: prod.splits option.splits)
next
  case (2 g st)
  then show ?case by (simp add: detectCycleNeighbors.psimps)
next
  case (3 g neighbor rest st)
  then show ?case
    by (fastforce simp: detectCycleNeighbors.psimps split: prod.splits option.splits)
qed

text \<open>
  The traversal ends because each node enters \<open>visited\<close> once: the number of
  nodes not yet visited drops at every descent into a new node, and the neighbour
  loop shortens otherwise.
\<close>

definition dfs_measure ::
  "graph \<times> string \<times> dfs_state + graph \<times> string list \<times> dfs_state \<Rightarrow> nat \<times> nat \<times> nat"
where
  "dfs_measure a =
     (case a of
        Inl (g, node, st) \<Rightarrow> (card ((graph_nodes g \<union> {node}) - set (fst st)), 0, 0)
      | Inr (g, ns, st) \<Rightarrow> (card ((graph_nodes g \<union> set ns) - set (fst st)), 1, length ns))"

termination detectCycleUtil
proof (relation "inv_image (less_than <*lex*> less_than <*lex*> less_than) dfs_measure")
  show "wf (inv_image (less_than <*lex*> less_than <*lex*> less_than) dfs_measure)"
    by (intro wf_inv_image wf_lex_prod wf_less_than)
next
  fix g :: graph and node :: string and visited recursionStack :: "string jsset"
  assume a: "\<not> set_has recursionStack node" "\<not> set_has visited node"
  let ?ns = "case map_get g node of None \<Rightarrow> [] | Some ns \<Rightarrow> ns"
  have sub: "set ?ns \<subseteq> graph_nodes g"
    by (cases "map_get g node") (simp_all add: map_get_nodes)
  have "(graph_nodes g \<union> set ?ns) - set (set_add visited node)
        \<subset> (graph_nodes g \<union> {node}) - set visited"
    using a sub by (auto simp: set_set_add set_has_def)
  then have "card ((graph_nodes g \<union> set ?ns) - set (set_add visited node))
        < card ((graph_nodes g \<union> {node}) - set visited)"
    by (intro psubset_card_mono) (auto simp: finite_graph_nodes)
  then show "(Inr (g, ?ns, set_add visited node, set_add recursionStack node),
              Inl (g, node, visited, recursionStack))
             \<in> inv_image (less_than <*lex*> less_than <*lex*> less_than) dfs_measure"
    by (simp add: dfs_measure_def)
next
  fix g :: graph and neighbor :: string and rest :: "string list" and st :: dfs_state
  have "card ((graph_nodes g \<union> {neighbor}) - set (fst st))
        \<le> card ((graph_nodes g \<union> set (neighbor # rest)) - set (fst st))"
    by (intro card_mono) (auto simp: finite_graph_nodes)
  then show "(Inl (g, neighbor, st), Inr (g, neighbor # rest, st))
        \<in> inv_image (less_than <*lex*> less_than <*lex*> less_than) dfs_measure"
    by (auto simp: dfs_measure_def)
next
  fix g :: graph and neighbor :: string and rest :: "string list" and st y :: dfs_state
    and x :: "string list option"
  assume eq: "(x, y) = detectCycleUtil g neighbor st"
    and dom: "detectCycleUtil_detectCycleNeighbors_dom (Inl (g, neighbor, st))"
  have "set (fst st) \<subseteq> set (fst y)"
    using detect_visited_mono_dom(1)[OF dom] eq[symmetric] by simp
  then have "card ((graph_nodes g \<union> set rest) - set (fst y))
        \<le> card ((graph_nodes g \<union> set (neighbor # rest)) - set (fst st))"
    by (intro card_mono) (auto simp: finite_graph_nodes)
  then show "(Inr (g, rest, y), Inr (g, neighbor # rest, st))
        \<in> inv_image (less_than <*lex*> less_than <*lex*> less_than) dfs_measure"
    by (auto simp: dfs_measure_def)
qed

text \<open>
  \<^verbatim>\<open>hasCycle\<close>: the loop over \<^verbatim>\<open>adjacencyList.keys()\<close>, sharing one pair of sets.
\<close>

fun hasCycle_loop :: "graph \<Rightarrow> string list \<Rightarrow> dfs_state \<Rightarrow> string list option" where
  "hasCycle_loop g [] st = None"
| "hasCycle_loop g (node # rest) st =
     (case detectCycleUtil g node st of
        (Some cycle, st') \<Rightarrow> Some cycle
      | (None, st') \<Rightarrow> hasCycle_loop g rest st')"

definition hasCycle :: "graph \<Rightarrow> string list option" where
  "hasCycle g = hasCycle_loop g (map_keys g) ([], [])"

section \<open>Data model\<close>

text \<open>
  Interfaces \<^verbatim>\<open>Field\<close>, \<^verbatim>\<open>Form\<close> and \<^verbatim>\<open>Response\<close>. An optional property is an
  \<open>option\<close>. The \<^verbatim>\<open>tipo\<close> union is closed in the type, but nothing checks it at
  run time, so any other string is kept as \<open>Unsupported\<close>. Dates are milliseconds
  since the epoch.
\<close>

datatype tipo = Text | Number | Boolean | Select | Date | Calculated | Unsupported string

datatype formato = Inteiro | Decimal

record validacao =
  v_tipo :: string
  valor :: "jsval option"
  mensagem :: "string option"

record opcao =
  opt_label :: string
  opt_value :: string

record field =
  fid :: string
  label :: string
  tipo :: tipo
  obrigatorio :: "bool option"
  condicional :: "string option"
  validacoes :: "validacao list option"
  formula :: "string option"
  dependencias :: "string list option"
  precisao :: "nat option"
  formato :: "formato option"
  multipla :: "bool option"
  opcoes :: "opcao list option"
  minima :: "string option"
  maxima :: "string option"

record form =
  form_id :: string
  nome :: string
  descricao :: "string option"
  schema_version :: int
  is_ativo :: bool
  data_criacao :: nat
  data_remocao :: "nat option"
  usuario_remocao :: "string option"
  protegido :: bool
  campos :: "field list"

text \<open>
  What a caller hands to \<^verbatim>\<open>criarFormulario\<close>: the properties of \<^verbatim>\<open>Form\<close> that
  survive the spread (\<^verbatim>\<open>schema_version\<close>, \<^verbatim>\<open>is_ativo\<close> and \<^verbatim>\<open>data_criacao\<close> are
  overwritten), with \<^verbatim>\<open>protegido\<close> possibly unset, as the \<^verbatim>\<open>??\<close> allows.
\<close>

record form_input =
  in_id :: string
  in_nome :: string
  in_descricao :: "string option"
  in_protegido :: "bool option"
  in_campos :: "field list"

text \<open>\<^verbatim>\<open>Partial<Form>\<close>, the argument of a schema update.\<close>

record form_partial =
  p_nome :: "string option"
  p_descricao :: "string option"
  p_schema_version :: "int option"
  p_is_ativo :: "bool option"
  p_data_criacao :: "nat option"
  p_protegido :: "bool option"
  p_campos :: "field list option"

record response =
  resp_id :: string
  formId :: string
  resp_schema_version :: int
  respostas :: "string \<rightharpoonup> jsval"
  calculados :: "string \<rightharpoonup> jsval"
  criado_em :: nat
  resp_is_ativo :: bool
  resp_data_remocao :: "nat option"
  resp_usuario_remocao :: "string option"

text \<open>
  A \<^verbatim>\<open>Record<string, unknown>\<close> is a plain object: the map holds its own
  properties, and behind them stand the members every plain object inherits from
  \<^verbatim>\<open>Object.prototype\<close>. Reading \<^verbatim>\<open>values[k]\<close> finds an own property first, then
  an inherited member (a function, or the prototype object itself for
  \<^verbatim>\<open>__proto__\<close>), and is \<^verbatim>\<open>undefined\<close> otherwise; \<^verbatim>\<open>k in values\<close> holds in the
  first two cases. An assignment \<^verbatim>\<open>acc[k] = v\<close> creates or replaces an own property,
  except under the name \<^verbatim>\<open>__proto__\<close>, where it runs the inherited setter and adds
  no property.
\<close>

definition object_prototype_names :: "string list" where
  "object_prototype_names =
     [''constructor'', ''__defineGetter__'', ''__defineSetter__'', ''hasOwnProperty'',
      ''__lookupGetter__'', ''__lookupSetter__'', ''isPrototypeOf'',
      ''propertyIsEnumerable'', ''toString'', ''valueOf'', ''__proto__'',
      ''toLocaleString'']"

definition get_prop :: "(string \<rightharpoonup> jsval) \<Rightarrow> string \<Rightarrow> jsval" where
  "get_prop values k =
     (case values k of
        Some v \<Rightarrow> v
      | None \<Rightarrow>
          (if k = ''__proto__'' then VObject []
           else if k \<in> set object_prototype_names then VFunction
           else VUndefined))"

definition has_prop :: "(string \<rightharpoonup> jsval) \<Rightarrow> string \<Rightarrow> bool" where
  "has_prop values k = (k \<in> dom values \<or> k \<in> set object_prototype_names)"

definition set_prop :: "(string \<rightharpoonup> jsval) \<Rightarrow> string \<Rightarrow> jsval \<Rightarrow> (string \<rightharpoonup> jsval)" where
  "set_prop acc k v = (if k = ''__proto__'' then acc else acc(k \<mapsto> v))"

text \<open>Truthiness of optional properties: \<^verbatim>\<open>!field.formula\<close> holds for an unset and for
  an empty string, \<^verbatim>\<open>!field.dependencias\<close> only for an unset array.\<close>

definition str_truthy :: "string option \<Rightarrow> bool" where
  "str_truthy s = (case s of Some t \<Rightarrow> t \<noteq> [] | None \<Rightarrow> False)"

definition bool_truthy :: "bool option \<Rightarrow> bool" where
  "bool_truthy b = (case b of Some t \<Rightarrow> t | None \<Rightarrow> False)"

section \<open>External libraries\<close>

text \<open>
  The functions the code calls in libraries and in the JavaScript runtime are
  parameters of the model: the regular-expression match behind zod's \<^verbatim>\<open>.regex\<close>,
  \<^verbatim>\<open>Date.parse\<close> (\<open>None\<close> for \<^verbatim>\<open>NaN\<close>), mathjs' \<^verbatim>\<open>evaluate\<close> (\<open>None\<close> when it
  throws) and \<^verbatim>\<open>Number(x.toFixed(p))\<close> (\<open>None\<close> when \<^verbatim>\<open>toFixed\<close> throws).
\<close>

record lib =
  regex_test :: "string \<Rightarrow> string \<Rightarrow> bool"
  date_parse :: "string \<Rightarrow> int option"
  math_evaluate :: "string \<Rightarrow> (string \<rightharpoonup> jsval) \<Rightarrow> jsval option"
  to_fixed :: "rat \<Rightarrow> nat \<Rightarrow> rat option"

section \<open>The zod schemas the validator builds\<close>

text \<open>
  Only the schema constructors that \<^verbatim>\<open>FieldValidator\<close> uses. A refinement
  (\<^verbatim>\<open>.refine(pred, {message})\<close>) wraps a schema and a predicate. Parsing yields
  a status as in zod: \<open>Valid\<close>, \<open>Dirty\<close> (issues, parsing went on) or \<open>Aborted\<close>
  (a type mismatch; refinements wrapped around an aborted schema do not run).
\<close>

datatype zstring_check = StrMin rat zmsg | StrRegex string zmsg

datatype znumber_check = NumInt | NumMin rat zmsg | NumMax rat zmsg

datatype zod =
    ZodString "zstring_check list"
  | ZodNumber "znumber_check list"
  | ZodBoolean
  | ZodUndefined
  | ZodAny
  | ZodOptional zod
  | ZodArray zod
  | ZodEffects zod "jsval \<Rightarrow> bool" zmsg

datatype zstatus = Valid | Dirty "zissue list" | Aborted "zissue list"

fun string_check :: "lib \<Rightarrow> string \<Rightarrow> zstring_check \<Rightarrow> zissue list" where
  "string_check l s (StrMin v m) = (if of_nat (length s) < v then [TooSmall m] else [])"
| "string_check l s (StrRegex p m) = (if regex_test l p s then [] else [InvalidString m])"

fun number_check :: "rat \<Rightarrow> znumber_check \<Rightarrow> zissue list" where
  "number_check r NumInt = (if of_int \<lfloor>r\<rfloor> = r then [] else [NotInteger])"
| "number_check r (NumMin v m) = (if r < v then [TooSmall m] else [])"
| "number_check r (NumMax v m) = (if v < r then [TooBig m] else [])"

definition status_of :: "zissue list \<Rightarrow> zstatus" where
  "status_of issues = (if issues = [] then Valid else Dirty issues)"

fun issues_of :: "zstatus \<Rightarrow> zissue list" where
  "issues_of Valid = []"
| "issues_of (Dirty iss) = iss"
| "issues_of (Aborted iss) = iss"

fun is_aborted :: "zstatus \<Rightarrow> bool" where
  "is_aborted (Aborted iss) = True"
| "is_aborted s = False"

definition merge_array :: "zstatus list \<Rightarrow> zstatus" where
  "merge_array rs =
     (if list_ex is_aborted rs then Aborted (concat (map issues_of rs))
      else status_of (concat (map issues_of rs)))"

fun zparse :: "lib \<Rightarrow> zod \<Rightarrow> jsval \<Rightarrow> zstatus" where
  "zparse l (ZodString cs) v =
     (case v of
        VStr s \<Rightarrow> status_of (concat (map (string_check l s) cs))
      | _ \<Rightarrow> Aborted [InvalidType ''string''])"
| "zparse l (ZodNumber cs) v =
     (case v of
        VNum r \<Rightarrow> status_of (concat (map (number_check r) cs))
      | _ \<Rightarrow> Aborted [InvalidType ''number''])"
| "zparse l ZodBoolean v =
     (case v of VBool b \<Rightarrow> Valid | _ \<Rightarrow> Aborted [InvalidType ''boolean''])"
| "zparse l ZodUndefined v =
     (case v of VUndefined \<Rightarrow> Valid | _ \<Rightarrow> Aborted [InvalidType ''undefined''])"
| "zparse l ZodAny v = Valid"
| "zparse l (ZodOptional inner) v =
     (if v = VUndefined then Valid else zparse l inner v)"
| "zparse l (ZodArray inner) v =
     (case v of
        VArr xs \<Rightarrow> merge_array (map (zparse l inner) xs)
      | _ \<Rightarrow> Aborted [InvalidType ''array''])"
| "zparse l (ZodEffects inner refinement m) v =
     (case zparse l inner v of
        Aborted iss \<Rightarrow> Aborted iss
      | Dirty iss \<Rightarrow> Dirty (iss @ (if refinement v then [] else [Custom m]))
      | Valid \<Rightarrow> (if refinement v then Valid else Dirty [Custom m]))"

text \<open>
  The methods called on a schema. \<^verbatim>\<open>.min\<close>, \<^verbatim>\<open>.max\<close>, \<^verbatim>\<open>.regex\<close> and \<^verbatim>\<open>.int\<close>
  exist on the string and number schemas only: the source casts whatever it holds
  (\<^verbatim>\<open>schema as z.ZodString\<close>), so on an optional wrapper the call is a
  \<^verbatim>\<open>TypeError\<close>.
\<close>

definition string_min :: "zod \<Rightarrow> rat \<Rightarrow> zmsg \<Rightarrow> error + zod" where
  "string_min schema v m =
     (case schema of
        ZodString cs \<Rightarrow> Inr (ZodString (cs @ [StrMin v m]))
      | _ \<Rightarrow> Inl (TypeError ''schema.min is not a function''))"

definition string_regex :: "zod \<Rightarrow> string \<Rightarrow> zmsg \<Rightarrow> error + zod" where
  "string_regex schema p m =
     (case schema of
        ZodString cs \<Rightarrow> Inr (ZodString (cs @ [StrRegex p m]))
      | _ \<Rightarrow> Inl (TypeError ''schema.regex is not a function''))"

definition number_int :: "zod \<Rightarrow> error + zod" where
  "number_int schema =
     (case schema of
        ZodNumber cs \<Rightarrow> Inr (ZodNumber (cs @ [NumInt]))
      | _ \<Rightarrow> Inl (TypeError ''schema.int is not a function''))"

definition number_min :: "zod \<Rightarrow> rat \<Rightarrow> zmsg \<Rightarrow> error + zod" where
  "number_min schema v m =
     (case schema of
        ZodNumber cs \<Rightarrow> Inr (ZodNumber (cs @ [NumMin v m]))
      | _ \<Rightarrow> Inl (TypeError ''schema.min is not a function''))"

definition number_max :: "zod \<Rightarrow> rat \<Rightarrow> zmsg \<Rightarrow> error + zod" where
  "number_max schema v m =
     (case schema of
        ZodNumber cs \<Rightarrow> Inr (ZodNumber (cs @ [NumMax v m]))
      | _ \<Rightarrow> Inl (TypeError ''schema.max is not a function''))"

section \<open>Field validator\<close>

text \<open>
  Class \<^verbatim>\<open>FieldValidator\<close>. \<open>baseValidators\<close> is the lookup
  \<^verbatim>\<open>this.baseValidators[field.tipo] || z.any()\<close>. The table is a plain object, so
  a \<^verbatim>\<open>tipo\<close> that names a member of \<^verbatim>\<open>Object.prototype\<close> finds that member, which
  is truthy and is no schema: the result \<open>None\<close>. The \<^verbatim>\<open>apply...\<close> functions mirror
  the private methods.
\<close>

definition date_of :: "lib \<Rightarrow> jsval \<Rightarrow> int option" where
  "date_of l v = (case v of VStr s \<Rightarrow> date_parse l s | _ \<Rightarrow> None)"

definition baseValidators :: "lib \<Rightarrow> tipo \<Rightarrow> zod option" where
  "baseValidators l t =
     (case t of
        Text \<Rightarrow> Some (ZodString [])
      | Number \<Rightarrow> Some (ZodNumber [])
      | Boolean \<Rightarrow> Some ZodBoolean
      | Date \<Rightarrow> Some (ZodEffects (ZodString [])
                 (\<lambda>val. \<not> truthy val \<or> date_of l val \<noteq> None) DataInvalida)
      | Select \<Rightarrow> Some (ZodString [])
      | Calculated \<Rightarrow> Some ZodUndefined
      | Unsupported other \<Rightarrow>
          (if other \<in> set object_prototype_names then None else Some ZodAny))"

text \<open>The string that \<^verbatim>\<open>field.tipo\<close> holds.\<close>

definition tipo_string :: "tipo \<Rightarrow> string" where
  "tipo_string t =
     (case t of
        Text \<Rightarrow> ''text''
      | Number \<Rightarrow> ''number''
      | Boolean \<Rightarrow> ''boolean''
      | Date \<Rightarrow> ''date''
      | Select \<Rightarrow> ''select''
      | Calculated \<Rightarrow> ''calculated''
      | Unsupported other \<Rightarrow> other)"

definition validacoes_of :: "field \<Rightarrow> validacao list" where
  "validacoes_of f = (case validacoes f of Some vs \<Rightarrow> vs | None \<Rightarrow> [])"

text \<open>\<^verbatim>\<open>v.mensagem || fallback\<close>\<close>

definition mensagem_or :: "validacao \<Rightarrow> zmsg \<Rightarrow> zmsg" where
  "mensagem_or v fallback =
     (case mensagem v of
        Some m \<Rightarrow> (if m \<noteq> [] then Mensagem m else fallback)
      | None \<Rightarrow> fallback)"

definition applyTextValidations :: "zod \<Rightarrow> field \<Rightarrow> error + zod" where
  "applyTextValidations schema f =
     (let minLength = find (\<lambda>v. v_tipo v = ''tamanho_minimo'') (validacoes_of f);
          step =
            (case minLength of
               Some v \<Rightarrow>
                 (case valor v of
                    Some (VNum r) \<Rightarrow>
                      (if r \<noteq> 0 then string_min schema r (mensagem_or v (TamanhoMinimoE r))
                       else Inr schema)
                  | _ \<Rightarrow> Inr schema)
             | None \<Rightarrow> Inr schema)
      in case step of
           Inl e \<Rightarrow> Inl e
         | Inr schema1 \<Rightarrow>
             (let regex = find (\<lambda>v. v_tipo v = ''regex'') (validacoes_of f)
              in case regex of
                   Some v \<Rightarrow>
                     (case valor v of
                        Some (VRegExp p) \<Rightarrow> string_regex schema1 p (mensagem_or v FormatoInvalido)
                      | _ \<Rightarrow> Inr schema1)
                 | None \<Rightarrow> Inr schema1))"

text \<open>One turn of the \<^verbatim>\<open>forEach\<close> in \<^verbatim>\<open>applyNumberValidations\<close>.\<close>

definition number_rule :: "zod \<Rightarrow> validacao \<Rightarrow> error + zod" where
  "number_rule schema v =
     (case (if v_tipo v = ''minimo'' then
              (case valor v of
                 Some (VNum r) \<Rightarrow> number_min schema r (mensagem_or v (ValorMinimoE r))
               | _ \<Rightarrow> Inr schema)
            else Inr schema) of
        Inl e \<Rightarrow> Inl e
      | Inr schema1 \<Rightarrow>
          (if v_tipo v = ''maximo'' then
             (case valor v of
                Some (VNum r) \<Rightarrow> number_max schema1 r (mensagem_or v (ValorMaximoE r))
              | _ \<Rightarrow> Inr schema1)
           else Inr schema1))"

fun number_rules :: "zod \<Rightarrow> validacao list \<Rightarrow> error + zod" where
  "number_rules schema [] = Inr schema"
| "number_rules schema (v # vs) =
     (case number_rule schema v of
        Inl e \<Rightarrow> Inl e
      | Inr schema1 \<Rightarrow> number_rules schema1 vs)"

definition applyNumberValidations :: "zod \<Rightarrow> field \<Rightarrow> error + zod" where
  "applyNumberValidations schema f =
     (case (if formato f = Some Inteiro then number_int schema else Inr schema) of
        Inl e \<Rightarrow> Inl e
      | Inr schema1 \<Rightarrow> number_rules schema1 (validacoes_of f))"

text \<open>\<^verbatim>\<open>new Date(a) >= new Date(b)\<close>: false when either date is invalid.\<close>

definition date_ge :: "int option \<Rightarrow> int option \<Rightarrow> bool" where
  "date_ge a b = (case (a, b) of (Some x, Some y) \<Rightarrow> y \<le> x | _ \<Rightarrow> False)"

definition applyDateValidations :: "lib \<Rightarrow> zod \<Rightarrow> field \<Rightarrow> zod" where
  "applyDateValidations l schema f =
     (let schema1 =
            (case minima f of
               Some lo \<Rightarrow>
                 (if lo \<noteq> [] then
                    ZodEffects schema
                      (\<lambda>val. \<not> truthy val \<or> date_ge (date_of l val) (date_parse l lo))
                      (DataDeveSerApos lo)
                  else schema)
             | None \<Rightarrow> schema)
      in case maxima f of
           Some hi \<Rightarrow>
             (if hi \<noteq> [] then
                ZodEffects schema1
                  (\<lambda>val. \<not> truthy val \<or> date_ge (date_parse l hi) (date_of l val))
                  (DataDeveSerAntes hi)
              else schema1)
         | None \<Rightarrow> schema1)"

text \<open>\<^verbatim>\<open>options.includes(val)\<close> on an array of strings.\<close>

definition array_includes :: "string list \<Rightarrow> jsval \<Rightarrow> bool" where
  "array_includes options v = (case v of VStr s \<Rightarrow> s \<in> set options | _ \<Rightarrow> False)"

definition every_included :: "string list \<Rightarrow> jsval \<Rightarrow> bool" where
  "every_included options v =
     (case v of VArr vals \<Rightarrow> list_all (array_includes options) vals | _ \<Rightarrow> False)"

definition applySelectValidations :: "zod \<Rightarrow> field \<Rightarrow> zod" where
  "applySelectValidations schema f =
     (let options = (case opcoes f of Some os \<Rightarrow> map opt_value os | None \<Rightarrow> [])
      in if bool_truthy (multipla f)
         then ZodEffects (ZodArray (ZodString [])) (every_included options) OpcaoInvalida
         else ZodEffects schema (array_includes options) OpcaoInvalida)"

definition applyCalculatedValidations :: "zod \<Rightarrow> field \<Rightarrow> error + zod" where
  "applyCalculatedValidations schema f =
     (if \<not> str_truthy (formula f) \<or> dependencias f = None
      then Inl CampoCalculadoDeveTerFormula
      else Inr (ZodEffects schema (\<lambda>v. v = VUndefined) CamposCalculadosSemValorManual))"

text \<open>
  \<^verbatim>\<open>getValidator\<close>. When the lookup found an inherited member instead of a schema,
  \<^verbatim>\<open>schema.optional()\<close> is a \<^verbatim>\<open>TypeError\<close>; with \<^verbatim>\<open>obrigatorio\<close> set that call is
  skipped and the \<^verbatim>\<open>switch\<close> reaches its \<^verbatim>\<open>default\<close>.
\<close>

definition getValidator :: "lib \<Rightarrow> field \<Rightarrow> error + zod" where
  "getValidator l f =
     (case baseValidators l (tipo f) of
        None \<Rightarrow>
          (if \<not> bool_truthy (obrigatorio f)
           then Inl (TypeError ''schema.optional is not a function'')
           else Inl (UnsupportedFieldType (tipo_string (tipo f))))
      | Some base \<Rightarrow>
          (let schema = (if \<not> bool_truthy (obrigatorio f) then ZodOptional base else base)
           in case tipo f of
                Text \<Rightarrow> applyTextValidations schema f
              | Number \<Rightarrow> applyNumberValidations schema f
              | Boolean \<Rightarrow> Inr schema
              | Date \<Rightarrow> Inr (applyDateValidations l schema f)
              | Select \<Rightarrow> Inr (applySelectValidations schema f)
              | Calculated \<Rightarrow> applyCalculatedValidations schema f
              | Unsupported other \<Rightarrow> Inl (UnsupportedFieldType other)))"

definition validate :: "lib \<Rightarrow> jsval \<Rightarrow> field \<Rightarrow> error + unit" where
  "validate l v f =
     (case getValidator l f of
        Inl e \<Rightarrow> Inl e
      | Inr validator \<Rightarrow>
          (case zparse l validator v of
             Valid \<Rightarrow> Inr ()
           | Dirty iss \<Rightarrow> Inl (ZodError iss)
           | Aborted iss \<Rightarrow> Inl (ZodError iss)))"

section \<open>Calculator\<close>

text \<open>
  \<^verbatim>\<open>Calculator.calculate\<close>. \<^verbatim>\<open>dep in values\<close> is \<open>has_prop\<close>; the scope is built
  by assignments to an empty object and handed to the library as its own
  properties. Everything inside the \<^verbatim>\<open>try\<close> that throws becomes the one formula
  error.
\<close>

definition calculate :: "lib \<Rightarrow> field \<Rightarrow> (string \<rightharpoonup> jsval) \<Rightarrow> error + jsval" where
  "calculate l f values =
     (case (formula f, dependencias f) of
        (Some expr, Some deps) \<Rightarrow>
          (if expr = [] then Inl (CampoCalculadoRequerFormula (fid f))
           else
             (let missingDeps = filter (\<lambda>dep. \<not> has_prop values dep) deps
              in if missingDeps \<noteq> [] then Inl (DependenciasAusentes (fid f) missingDeps)
                 else
                   (let scope = foldl (\<lambda>acc dep. set_prop acc dep (get_prop values dep)) Map.empty deps
                    in case math_evaluate l expr scope of
                         None \<Rightarrow> Inl (AvaliacaoFormulaFalhou expr)
                       | Some result \<Rightarrow>
                           (case (precisao f, result) of
                              (Some p, VNum r) \<Rightarrow>
                                (case to_fixed l r p of
                                   Some rounded \<Rightarrow> Inr (VNum rounded)
                                 | None \<Rightarrow> Inl (AvaliacaoFormulaFalhou expr))
                            | _ \<Rightarrow> Inr result))))
      | _ \<Rightarrow> Inl (CampoCalculadoRequerFormula (fid f)))"

section \<open>Repository\<close>

text \<open>
  \<^verbatim>\<open>FormRepositoryPrisma\<close> over the two tables of the migration, each keyed by its
  primary key \<^verbatim>\<open>id\<close>. A Prisma call that the database rejects (duplicate primary
  key, missing row, broken foreign key, a \<^verbatim>\<open>schema_version\<close> outside the 32-bit
  \<^verbatim>\<open>INTEGER\<close> column) throws; the service lets it through. \<^verbatim>\<open>new Date()\<close> is the
  argument \<open>agora\<close>.
\<close>

definition int4 :: "int \<Rightarrow> bool" where
  "int4 v = (- 2147483648 \<le> v \<and> v \<le> 2147483647)"

record repository =
  forms :: "string \<rightharpoonup> form"
  responses :: "string \<rightharpoonup> response"

definition repo_create :: "repository \<Rightarrow> form \<Rightarrow> (error + form) \<times> repository" where
  "repo_create r f =
     (if forms r (form_id f) \<noteq> None \<or> \<not> int4 (schema_version f)
      then (Inl PersistenceError, r)
      else
        (let row = f\<lparr>data_remocao := None, usuario_remocao := None\<rparr>
         in (Inr row, r\<lparr>forms := (forms r)(form_id f \<mapsto> row)\<rparr>)))"

definition findById :: "repository \<Rightarrow> string \<Rightarrow> form option" where
  "findById r i = forms r i"

text \<open>Prisma leaves a column alone when the value given for it is \<^verbatim>\<open>undefined\<close>.\<close>

definition repo_updateSchema ::
  "repository \<Rightarrow> string \<Rightarrow> form_partial \<Rightarrow> (error + form) \<times> repository"
where
  "repo_updateSchema r i p =
     (case forms r i of
        None \<Rightarrow> (Inl PersistenceError, r)
      | Some row \<Rightarrow>
          (let row' = row\<lparr>
                 nome := (case p_nome p of Some n \<Rightarrow> n | None \<Rightarrow> nome row),
                 descricao := (case p_descricao p of Some d \<Rightarrow> Some d | None \<Rightarrow> descricao row),
                 schema_version :=
                   (case p_schema_version p of Some v \<Rightarrow> v | None \<Rightarrow> schema_version row),
                 campos := (case p_campos p of Some cs \<Rightarrow> cs | None \<Rightarrow> campos row)\<rparr>
           in if \<not> int4 (schema_version row') then (Inl PersistenceError, r)
              else (Inr row', r\<lparr>forms := (forms r)(i \<mapsto> row')\<rparr>)))"

definition repo_softDelete ::
  "repository \<Rightarrow> nat \<Rightarrow> string \<Rightarrow> string \<Rightarrow> (error + unit) \<times> repository"
where
  "repo_softDelete r agora i user =
     (case forms r i of
        None \<Rightarrow> (Inl PersistenceError, r)
      | Some row \<Rightarrow>
          (Inr (),
           r\<lparr>forms := (forms r)(i \<mapsto>
                row\<lparr>is_ativo := False, data_remocao := Some agora,
                    usuario_remocao := Some user\<rparr>)\<rparr>))"

definition repo_saveResponse ::
  "repository \<Rightarrow> string \<Rightarrow> response \<Rightarrow> (error + response) \<times> repository"
where
  "repo_saveResponse r fId resp =
     (if responses r (resp_id resp) \<noteq> None \<or> forms r fId = None
           \<or> \<not> int4 (resp_schema_version resp)
      then (Inl PersistenceError, r)
      else
        (let row = resp\<lparr>formId := fId, resp_data_remocao := None,
                         resp_usuario_remocao := None\<rparr>
         in (Inr row, r\<lparr>responses := (responses r)(resp_id resp \<mapsto> row)\<rparr>)))"

section \<open>Form service\<close>

text \<open>
  Class \<^verbatim>\<open>FormService\<close>. An operation takes the repository and returns its
  result with the repository it leaves. The audit logger writes to a file and is
  left out.
\<close>

fun validarCampos :: "lib \<Rightarrow> field list \<Rightarrow> error + unit" where
  "validarCampos l [] = Inr ()"
| "validarCampos l (campo # rest) =
     (case validate l VUndefined campo of
        Inl e \<Rightarrow> Inl e
      | Inr u \<Rightarrow> validarCampos l rest)"

text \<open>
  \<^verbatim>\<open>avaliarCondicional\<close>: the destructuring takes the first two pieces of the split;
  a missing or empty piece throws, and the \<^verbatim>\<open>catch\<close> rethrows under one message.
\<close>

definition avaliarCondicional :: "string \<Rightarrow> (string \<rightharpoonup> jsval) \<Rightarrow> error + bool" where
  "avaliarCondicional cond valores =
     (case split CHR ''='' cond of
        campoId # valorEsperado # others \<Rightarrow>
          (if campoId = [] \<or> valorEsperado = [] then Inl (ExpressaoCondicionalInvalida cond)
           else Inr (get_prop valores campoId = VStr valorEsperado))
      | _ \<Rightarrow> Inl (ExpressaoCondicionalInvalida cond))"

text \<open>
  \<^verbatim>\<open>verificarDependenciasCirculares\<close>: the graph is a \<^verbatim>\<open>Map\<close> from each field id to
  its \<^verbatim>\<open>dependencias || []\<close>; \<open>detectarCiclo\<close> is the inner closure and
  \<open>detectarCicloVizinhos\<close> its loop over the neighbours. The state is
  \<open>(visitados, pilhaRecursao)\<close>.
\<close>

definition grafo_de :: "field list \<Rightarrow> graph" where
  "grafo_de cs =
     foldl (\<lambda>grafo campo.
              map_set grafo (fid campo)
                (case dependencias campo of Some ds \<Rightarrow> ds | None \<Rightarrow> []))
       [] cs"

function detectarCiclo :: "graph \<Rightarrow> string \<Rightarrow> dfs_state \<Rightarrow> error + dfs_state"
  and detectarCicloVizinhos :: "graph \<Rightarrow> string list \<Rightarrow> dfs_state \<Rightarrow> error + dfs_state"
where
  "detectarCiclo grafo no (visitados, pilhaRecursao) =
     (case detectarCicloVizinhos grafo
             (case map_get grafo no of Some ns \<Rightarrow> ns | None \<Rightarrow> [])
             (set_add visitados no, set_add pilhaRecursao no) of
        Inl e \<Rightarrow> Inl e
      | Inr (visitados', pilhaRecursao') \<Rightarrow> Inr (visitados', set_delete pilhaRecursao' no))"
| "detectarCicloVizinhos grafo [] st = Inr st"
| "detectarCicloVizinhos grafo (vizinho # rest) (visitados, pilhaRecursao) =
     (if \<not> set_has visitados vizinho then
        (case detectarCiclo grafo vizinho (visitados, pilhaRecursao) of
           Inl e \<Rightarrow> Inl e
         | Inr st' \<Rightarrow> detectarCicloVizinhos grafo rest st')
      else if set_has pilhaRecursao vizinho then Inl (DependenciaCircular vizinho)
      else detectarCicloVizinhos grafo rest (visitados, pilhaRecursao))"
  by pat_completeness auto

lemma detectar_visited_mono_dom:
  "detectarCiclo_detectarCicloVizinhos_dom (Inl (g, no, st)) \<Longrightarrow>
     detectarCiclo g no st = Inr st' \<Longrightarrow> set (fst st) \<subseteq> set (fst st')"
  "detectarCiclo_detectarCicloVizinhos_dom (Inr (g, ns, st)) \<Longrightarrow>
     detectarCicloVizinhos g ns st = Inr st' \<Longrightarrow> set (fst st) \<subseteq> set (fst st')"
proof (induction arbitrary: st' and st' rule: detectarCiclo_detectarCicloVizinhos.pinduct)
  case (1 grafo no visitados pilhaRecursao)
  from "1.prems" "1.hyps" obtain v' p' where
    r: "detectarCicloVizinhos grafo
          (case map_get grafo no of Some ns \<Rightarrow> ns | None \<Rightarrow> [])
          (set_add visitados no, set_add pilhaRecursao no) = Inr (v', p')"
    and s: "st' = (v', set_delete p' no)"
    by (auto simp: detectarCiclo.psimps split: sum.splits prod.splits)
  from "1.IH"[OF r] s show ?case by (auto simp: set_set_add)
next
  case (2 grafo st)
  then show ?case by (simp add: detectarCicloVizinhos.psimps)
next
  case (3 grafo vizinho rest visitados pilhaRecursao)
  show ?case
  proof (cases "set_has visitados vizinho")
    case False
    with "3.prems" "3.hyps" obtain st1 where
      a: "detectarCiclo grafo vizinho (visitados, pilhaRecursao) = Inr st1"
      and b: "detectarCicloVizinhos grafo rest st1 = Inr st'"
      by (auto simp: detectarCicloVizinhos.psimps split: sum.splits)
    from "3.IH"(1)[OF False a] "3.IH"(2)[OF False a b] show ?thesis by auto
  next
    case True
    with "3.prems" "3.hyps" have np: "\<not> set_has pilhaRecursao vizinho"
      and b: "detectarCicloVizinhos grafo rest (visitados, pilhaRecursao) = Inr st'"
      by (auto simp: detectarCicloVizinhos.psimps split: if_splits)
    from "3.IH"(3) True np b show ?thesis by auto
  qed
qed

definition ciclo_measure ::
  "graph \<times> string \<times> dfs_state + graph \<times> string list \<times> dfs_state \<Rightarrow> nat \<times> nat \<times> nat"
where
  "ciclo_measure a =
     (case a of
        Inl (g, no, st) \<Rightarrow> (card (graph_nodes g - insert no (set (fst st))), 1, 0)
      | Inr (g, ns, st) \<Rightarrow> (card ((graph_nodes g \<union> set ns) - set (fst st)), 0, length ns))"

termination detectarCiclo
proof (relation "inv_image (less_than <*lex*> less_than <*lex*> less_than) ciclo_measure")
  show "wf (inv_image (less_than <*lex*> less_than <*lex*> less_than) ciclo_measure)"
    by (intro wf_inv_image wf_lex_prod wf_less_than)
next
  fix grafo :: graph and no :: string and visitados pilhaRecursao :: "string jsset"
  let ?ns = "case map_get grafo no of None \<Rightarrow> [] | Some ns \<Rightarrow> ns"
  have "set ?ns \<subseteq> graph_nodes grafo"
    by (cases "map_get grafo no") (simp_all add: map_get_nodes)
  then have "(graph_nodes grafo \<union> set ?ns) - set (set_add visitados no)
        = graph_nodes grafo - insert no (set visitados)"
    by (auto simp: set_set_add)
  then show "(Inr (grafo, ?ns, set_add visitados no, set_add pilhaRecursao no),
              Inl (grafo, no, visitados, pilhaRecursao))
        \<in> inv_image (less_than <*lex*> less_than <*lex*> less_than) ciclo_measure"
    by (simp add: ciclo_measure_def)
next
  fix grafo :: graph and vizinho :: string and rest :: "string list"
    and visitados pilhaRecursao :: "string jsset"
  assume "\<not> set_has visitados vizinho"
  then have "graph_nodes grafo - insert vizinho (set visitados)
        \<subset> (graph_nodes grafo \<union> set (vizinho # rest)) - set visitados"
    by (auto simp: set_has_def)
  then have "card (graph_nodes grafo - insert vizinho (set visitados))
        < card ((graph_nodes grafo \<union> set (vizinho # rest)) - set visitados)"
    by (intro psubset_card_mono) (auto simp: finite_graph_nodes)
  then show "(Inl (grafo, vizinho, visitados, pilhaRecursao),
              Inr (grafo, vizinho # rest, visitados, pilhaRecursao))
        \<in> inv_image (less_than <*lex*> less_than <*lex*> less_than) ciclo_measure"
    by (simp add: ciclo_measure_def)
next
  fix grafo :: graph and vizinho :: string and rest :: "string list"
    and visitados pilhaRecursao :: "string jsset" and st' :: dfs_state
  assume eq: "detectarCiclo grafo vizinho (visitados, pilhaRecursao) = Inr st'"
    and dom: "detectarCiclo_detectarCicloVizinhos_dom
                (Inl (grafo, vizinho, visitados, pilhaRecursao))"
  have "set visitados \<subseteq> set (fst st')"
    using detectar_visited_mono_dom(1)[OF dom eq] by simp
  then have "card ((graph_nodes grafo \<union> set rest) - set (fst st'))
        \<le> card ((graph_nodes grafo \<union> set (vizinho # rest)) - set visitados)"
    by (intro card_mono) (auto simp: finite_graph_nodes)
  then show "(Inr (grafo, rest, st'), Inr (grafo, vizinho # rest, visitados, pilhaRecursao))
        \<in> inv_image (less_than <*lex*> less_than <*lex*> less_than) ciclo_measure"
    by (auto simp: ciclo_measure_def)
next
  fix grafo :: graph and vizinho :: string and rest :: "string list"
    and visitados pilhaRecursao :: "string jsset"
  have "card ((graph_nodes grafo \<union> set rest) - set visitados)
        \<le> card ((graph_nodes grafo \<union> set (vizinho # rest)) - set visitados)"
    by (intro card_mono) (auto simp: finite_graph_nodes)
  then show "(Inr (grafo, rest, visitados, pilhaRecursao),
              Inr (grafo, vizinho # rest, visitados, pilhaRecursao))
        \<in> inv_image (less_than <*lex*> less_than <*lex*> less_than) ciclo_measure"
    by (auto simp: ciclo_measure_def)
qed

text \<open>The loop over \<^verbatim>\<open>grafo.keys()\<close>.\<close>

fun verificar_nos :: "graph \<Rightarrow> string list \<Rightarrow> dfs_state \<Rightarrow> error + dfs_state" where
  "verificar_nos grafo [] st = Inr st"
| "verificar_nos grafo (no # rest) (visitados, pilhaRecursao) =
     (if \<not> set_has visitados no then
        (case detectarCiclo grafo no (visitados, pilhaRecursao) of
           Inl e \<Rightarrow> Inl e
         | Inr st' \<Rightarrow> verificar_nos grafo rest st')
      else verificar_nos grafo rest (visitados, pilhaRecursao))"

definition verificarDependenciasCirculares :: "field list \<Rightarrow> error + unit" where
  "verificarDependenciasCirculares cs =
     (let grafo = grafo_de cs
      in case verificar_nos grafo (map_keys grafo) ([], []) of
           Inl e \<Rightarrow> Inl e
         | Inr st \<Rightarrow> Inr ())"

definition criarFormulario ::
  "lib \<Rightarrow> repository \<Rightarrow> nat \<Rightarrow> form_input \<Rightarrow> (error + form) \<times> repository"
where
  "criarFormulario l r agora fi =
     (case validarCampos l (in_campos fi) of
        Inl e \<Rightarrow> (Inl e, r)
      | Inr u \<Rightarrow>
          (case verificarDependenciasCirculares (in_campos fi) of
             Inl e \<Rightarrow> (Inl e, r)
           | Inr u' \<Rightarrow>
               repo_create r
                 \<lparr>form_id = in_id fi, nome = in_nome fi, descricao = in_descricao fi,
                  schema_version = 1, is_ativo = True, data_criacao = agora,
                  data_remocao = None, usuario_remocao = None,
                  protegido = (case in_protegido fi of Some b \<Rightarrow> b | None \<Rightarrow> False),
                  campos = in_campos fi\<rparr>))"

text \<open>The object handed to \<^verbatim>\<open>updateSchema\<close>: the caller's partial form with four
  properties overwritten.\<close>

definition dados_atualizacao :: "form \<Rightarrow> form_partial \<Rightarrow> form_partial" where
  "dados_atualizacao formularioExistente formularioAtualizado =
     formularioAtualizado\<lparr>
       p_schema_version := Some (schema_version formularioExistente + 1),
       p_data_criacao := Some (data_criacao formularioExistente),
       p_is_ativo := Some (is_ativo formularioExistente),
       p_protegido := Some (protegido formularioExistente)\<rparr>"

text \<open>\<^verbatim>\<open>formularioAtualizado.campos || []\<close>\<close>

definition campos_ou_vazio :: "form_partial \<Rightarrow> field list" where
  "campos_ou_vazio formularioAtualizado =
     (case p_campos formularioAtualizado of Some c \<Rightarrow> c | None \<Rightarrow> [])"

definition atualizarSchemaFormulario ::
  "lib \<Rightarrow> repository \<Rightarrow> string \<Rightarrow> form_partial \<Rightarrow> (error + form) \<times> repository"
where
  "atualizarSchemaFormulario l r i formularioAtualizado =
     (case findById r i of
        None \<Rightarrow> (Inl FormularioNaoEncontrado, r)
      | Some formularioExistente \<Rightarrow>
          (if \<not> is_ativo formularioExistente then (Inl FormularioInativo, r)
           else
             (let cs = campos_ou_vazio formularioAtualizado
              in case validarCampos l cs of
                   Inl e \<Rightarrow> (Inl e, r)
                 | Inr u \<Rightarrow>
                     (case verificarDependenciasCirculares cs of
                        Inl e \<Rightarrow> (Inl e, r)
                      | Inr u' \<Rightarrow>
                          (case p_schema_version formularioAtualizado of
                             Some v \<Rightarrow>
                               (if v \<noteq> 0 \<and> v \<le> schema_version formularioExistente
                                then (Inl (VersaoSchemaNaoMaior v
                                             (schema_version formularioExistente)), r)
                                else repo_updateSchema r i
                                       (dados_atualizacao formularioExistente
                                          formularioAtualizado))
                           | None \<Rightarrow>
                               repo_updateSchema r i
                                 (dados_atualizacao formularioExistente
                                    formularioAtualizado))))))"

text \<open>The first loop of \<^verbatim>\<open>enviarResposta\<close>: validation of the submitted values.\<close>

fun validarRespostas :: "lib \<Rightarrow> field list \<Rightarrow> (string \<rightharpoonup> jsval) \<Rightarrow> error + unit" where
  "validarRespostas l [] rs = Inr ()"
| "validarRespostas l (campo # rest) rs =
     (if tipo campo = Calculated then validarRespostas l rest rs
      else
        (case (case condicional campo of
                 Some c \<Rightarrow> (if c \<noteq> [] then avaliarCondicional c rs else Inr True)
               | None \<Rightarrow> Inr True) of
           Inl e \<Rightarrow> Inl e
         | Inr em_escopo \<Rightarrow>
             (if \<not> em_escopo then validarRespostas l rest rs
              else
                (case validate l (get_prop rs (fid campo)) campo of
                   Inl e \<Rightarrow> Inl e
                 | Inr u \<Rightarrow> validarRespostas l rest rs))))"

text \<open>The second loop: every calculated field, in the order of the filtered list,
  each computed from the submitted values.\<close>

fun calcularCampos ::
  "lib \<Rightarrow> field list \<Rightarrow> (string \<rightharpoonup> jsval) \<Rightarrow> (string \<rightharpoonup> jsval) \<Rightarrow> error + (string \<rightharpoonup> jsval)"
where
  "calcularCampos l [] rs camposCalculados = Inr camposCalculados"
| "calcularCampos l (campo # rest) rs camposCalculados =
     (case calculate l campo rs of
        Inl e \<Rightarrow> Inl e
      | Inr v \<Rightarrow> calcularCampos l rest rs (set_prop camposCalculados (fid campo) v))"

text \<open>\<open>now\<close> is the reading of \<^verbatim>\<open>Date.now()\<close> that names the response, \<open>agora\<close> the
  \<^verbatim>\<open>new Date()\<close> stored as its creation time.\<close>

definition enviarResposta ::
  "lib \<Rightarrow> repository \<Rightarrow> nat \<Rightarrow> nat \<Rightarrow> string \<Rightarrow> (string \<rightharpoonup> jsval) \<Rightarrow> int option
     \<Rightarrow> (error + response) \<times> repository"
where
  "enviarResposta l r now agora fId rs sv =
     (case findById r fId of
        None \<Rightarrow> (Inl FormularioNaoEncontrado, r)
      | Some formulario \<Rightarrow>
          (if \<not> is_ativo formulario then (Inl FormularioInativo, r)
           else
             (let versaoAlvo =
                    (case sv of
                       Some v \<Rightarrow> (if v \<noteq> 0 then v else schema_version formulario)
                     | None \<Rightarrow> schema_version formulario)
              in if versaoAlvo \<noteq> schema_version formulario
                 then (Inl VersaoSchemaDesatualizada, r)
                 else
                   (case validarRespostas l (campos formulario) rs of
                      Inl e \<Rightarrow> (Inl e, r)
                    | Inr u \<Rightarrow>
                        (case calcularCampos l
                                (filter (\<lambda>f. tipo f = Calculated) (campos formulario))
                                rs Map.empty of
                           Inl e \<Rightarrow> (Inl e, r)
                         | Inr camposCalculados \<Rightarrow>
                             repo_saveResponse r fId
                               \<lparr>resp_id = ''resposta_'' @ string_of_nat now,
                                formId = fId,
                                resp_schema_version = versaoAlvo,
                                respostas = rs,
                                calculados = camposCalculados,
                                criado_em = agora,
                                resp_is_ativo = True,
                                resp_data_remocao = None,
                                resp_usuario_remocao = None\<rparr>)))))"

definition obterFormularioPorId :: "repository \<Rightarrow> string \<Rightarrow> form option" where
  "obterFormularioPorId r i = findById r i"

definition desativarFormulario ::
  "repository \<Rightarrow> nat \<Rightarrow> string \<Rightarrow> string \<Rightarrow> (error + unit) \<times> repository"
where
  "desativarFormulario r agora i usuario =
     (case findById r i of
        None \<Rightarrow> (Inl FormularioNaoEncontrado, r)
      | Some formularioExistente \<Rightarrow>
          (if \<not> is_ativo formularioExistente then (Inl FormularioInativo, r)
           else repo_softDelete r agora i usuario))"

section \<open>Controller: the soft-delete endpoint\<close>

text \<open>
  \<^verbatim>\<open>FormController.softDelete\<close>. The path parameter goes through \<^verbatim>\<open>idSchema\<close>
  (\<^verbatim>\<open>/^[a-z0-9_-]+$/i\<close>, 1 to 50 characters); a failure there, like any error of
  the service, is answered 400 by \<^verbatim>\<open>handleError\<close>.
\<close>

datatype http_response = Http200 | Http400 error | Http403 | Http404

definition id_issues :: "string \<Rightarrow> zissue list" where
  "id_issues i =
     (if list_all (\<lambda>c. c \<in> set ''abcdefghijklmnopqrstuvwxyzABCDEFGHIJKLMNOPQRSTUVWXYZ0123456789_-'') i
         \<and> i \<noteq> []
      then [] else [InvalidString DefaultMessage])
     @ (if length i < 1 then [TooSmall DefaultMessage] else [])
     @ (if 50 < length i then [TooBig DefaultMessage] else [])"

definition controller_softDelete ::
  "repository \<Rightarrow> nat \<Rightarrow> string \<Rightarrow> http_response \<times> repository"
where
  "controller_softDelete r agora i =
     (if id_issues i \<noteq> [] then (Http400 (ZodError (id_issues i)), r)
      else
        (case obterFormularioPorId r i of
           None \<Rightarrow> (Http404, r)
         | Some f \<Rightarrow>
             (if protegido f then (Http403, r)
              else
                (case desativarFormulario r agora i ''usuario_admin'' of
                   (Inl e, r') \<Rightarrow> (Http400 e, r')
                 | (Inr u, r') \<Rightarrow> (Http200, r')))))"

section \<open>Graphs: what a cycle is\<close>

text \<open>
  The edges of an adjacency list, and the graph-theoretic notions the cycle
  detection is measured against: a graph is cyclic when some node reaches itself
  along one or more edges; a walk is a sequence of nodes with an edge between each
  two neighbours; a closed walk has at least one edge and ends where it starts.
\<close>

definition graph_edges :: "graph \<Rightarrow> (string \<times> string) set" where
  "graph_edges g = {(a, b). \<exists>ns. map_get g a = Some ns \<and> b \<in> set ns}"

definition cyclic :: "graph \<Rightarrow> bool" where
  "cyclic g = (\<exists>n. (n, n) \<in> (graph_edges g)\<^sup>+)"

fun is_walk :: "(string \<times> string) set \<Rightarrow> string list \<Rightarrow> bool" where
  "is_walk E [] = True"
| "is_walk E [x] = True"
| "is_walk E (x # y # xs) = ((x, y) \<in> E \<and> is_walk E (y # xs))"

definition closed_walk :: "(string \<times> string) set \<Rightarrow> string list \<Rightarrow> bool" where
  "closed_walk E c = (is_walk E c \<and> 2 \<le> length c \<and> hd c = last c)"

text \<open>\<^verbatim>\<open>this.adjacencyList.get(node) || []\<close>\<close>

definition neighbours :: "graph \<Rightarrow> string \<Rightarrow> string list" where
  "neighbours g n = (case map_get g n of Some ns \<Rightarrow> ns | None \<Rightarrow> [])"

text \<open>
  The nodes whose visit is over (visited and no longer on the recursion stack), and
  the invariant of the traversal: no edge leaves that set, and no node of it lies on
  a cycle.
\<close>

definition finished :: "dfs_state \<Rightarrow> string set" where
  "finished st = set (fst st) - set (snd st)"

definition dfs_inv :: "graph \<Rightarrow> dfs_state \<Rightarrow> bool" where
  "dfs_inv g st =
     (graph_edges g `` finished st \<subseteq> finished st
      \<and> (\<forall>x \<in> finished st. (x, x) \<notin> (graph_edges g)\<^sup>+))"

text \<open>A graph is put together by calls of \<^verbatim>\<open>addNode\<close> and \<^verbatim>\<open>addEdge\<close> on a fresh
  \<^verbatim>\<open>Graph\<close>; a call that throws ends the construction.\<close>

datatype graph_op = AddNode string | AddEdge string string

fun build_graph :: "graph \<Rightarrow> graph_op list \<Rightarrow> error + graph" where
  "build_graph g [] = Inr g"
| "build_graph g (AddNode n # ops) = build_graph (addNode g n) ops"
| "build_graph g (AddEdge s d # ops) =
     (case addEdge g s d of Inl e \<Rightarrow> Inl e | Inr g' \<Rightarrow> build_graph g' ops)"

section \<open>Classification of errors\<close>

text \<open>The errors that can come out of \<^verbatim>\<open>FieldValidator.validate\<close>: a zod parse
  failure, or an exception thrown while the schema is being built.\<close>

fun erro_de_validacao :: "error \<Rightarrow> bool" where
  "erro_de_validacao CampoCalculadoDeveTerFormula = True"
| "erro_de_validacao (UnsupportedFieldType s) = True"
| "erro_de_validacao (TypeError s) = True"
| "erro_de_validacao (ZodError iss) = True"
| "erro_de_validacao e = False"

text \<open>The target version of a submission, \<^verbatim>\<open>schema_version || formulario.schema_version\<close>,
  under a name of its own.\<close>

definition versao_resolvida :: "int option \<Rightarrow> form \<Rightarrow> int" where
  "versao_resolvida sv f =
     (case sv of Some v \<Rightarrow> (if v \<noteq> 0 then v else schema_version f) | None \<Rightarrow> schema_version f)"

section \<open>Example data\<close>

text \<open>Concrete libraries, fields, forms and repositories on which the theorems
  below are instantiated.\<close>

definition lib_fixo :: lib where
  "lib_fixo = \<lparr>regex_test = (\<lambda>p s. True), date_parse = (\<lambda>s. None),
               math_evaluate = (\<lambda>e sc. Some (VNum 1)), to_fixed = (\<lambda>r p. Some r)\<rparr>"

definition repo_vazio :: repository where
  "repo_vazio = \<lparr>forms = Map.empty, responses = Map.empty\<rparr>"

definition campo_simples :: "string \<Rightarrow> tipo \<Rightarrow> field" where
  "campo_simples i t =
     \<lparr>fid = i, label = i, tipo = t, obrigatorio = None, condicional = None,
      validacoes = None, formula = None, dependencias = None, precisao = None,
      formato = None, multipla = None, opcoes = None, minima = None, maxima = None\<rparr>"

definition form_exemplo :: "string \<Rightarrow> int \<Rightarrow> bool \<Rightarrow> field list \<Rightarrow> form" where
  "form_exemplo i v p cs =
     \<lparr>form_id = i, nome = ''Exemplo'', descricao = None, schema_version = v,
      is_ativo = True, data_criacao = 1000, data_remocao = None, usuario_remocao = None,
      protegido = p, campos = cs\<rparr>"

definition repo_com :: "form \<Rightarrow> repository" where
  "repo_com f = \<lparr>forms = [form_id f \<mapsto> f], responses = Map.empty\<rparr>"

definition atualizacao_vazia :: form_partial where
  "atualizacao_vazia =
     \<lparr>p_nome = None, p_descricao = None, p_schema_version = None, p_is_ativo = None,
      p_data_criacao = None, p_protegido = None, p_campos = None\<rparr>"

definition campo_nome_obrigatorio :: field where
  "campo_nome_obrigatorio = (campo_simples ''nome'' Text)\<lparr>obrigatorio := Some True\<rparr>"

definition entrada_exemplo :: "field list \<Rightarrow> form_input" where
  "entrada_exemplo cs =
     \<lparr>in_id = ''f1'', in_nome = ''Exemplo'', in_descricao = None, in_protegido = None,
      in_campos = cs\<rparr>"

definition campo_imc :: field where
  "campo_imc =
     (campo_simples ''imc'' Calculated)
       \<lparr>formula := Some ''peso / (altura/100)^2'',
        dependencias := Some [''peso'', ''altura''], precisao := Some 2\<rparr>"

definition campo_classificacao :: field where
  "campo_classificacao =
     (campo_simples ''classificacao'' Calculated)
       \<lparr>formula := Some ''imc > 25'', dependencias := Some [''imc'']\<rparr>"

definition campos_saude :: "field list" where
  "campos_saude =
     [campo_simples ''peso'' Number, campo_simples ''altura'' Number, campo_imc,
      campo_classificacao]"

definition campos_saude_invertidos :: "field list" where
  "campos_saude_invertidos =
     [campo_simples ''peso'' Number, campo_simples ''altura'' Number, campo_classificacao,
      campo_imc]"

definition respostas_saude :: "string \<rightharpoonup> jsval" where
  "respostas_saude = [''peso'' \<mapsto> VNum 70, ''altura'' \<mapsto> VNum 170]"

definition campo_gravidez :: field where
  "campo_gravidez =
     (campo_simples ''gravidez'' Boolean)
       \<lparr>condicional := Some ''sexo=feminino'', obrigatorio := Some True\<rparr>"

definition campo_risco :: field where
  "campo_risco =
     (campo_simples ''risco'' Calculated)
       \<lparr>condicional := Some ''sexo=feminino'', formula := Some ''1'', dependencias := Some []\<rparr>"

definition campos_triagem :: "field list" where
  "campos_triagem = [campo_simples ''sexo'' Text, campo_gravidez, campo_risco]"

definition respostas_masculino :: "string \<rightharpoonup> jsval" where
  "respostas_masculino = [''sexo'' \<mapsto> VStr ''masculino'']"

definition resposta_exemplo :: "nat \<Rightarrow> nat \<Rightarrow> response" where
  "resposta_exemplo now agora =
     \<lparr>resp_id = ''resposta_'' @ string_of_nat now, formId = ''f1'', resp_schema_version = 1,
      respostas = Map.empty, calculados = Map.empty, criado_em = agora, resp_is_ativo = True,
      resp_data_remocao = None, resp_usuario_remocao = None\<rparr>"

section \<open>Properties of the form lifecycle\<close>

lemma verificar_vazio: "verificarDependenciasCirculares [] = Inr ()"
  by (simp add: verificarDependenciasCirculares_def grafo_de_def map_keys_def)

lemma validarCampos_saude: "validarCampos l campos_saude = Inr ()"
  by (simp add: campos_saude_def campo_simples_def campo_imc_def campo_classificacao_def
      validate_def getValidator_def baseValidators_def bool_truthy_def str_truthy_def
      applyNumberValidations_def applyCalculatedValidations_def validacoes_of_def Let_def)

lemma verificar_saude: "verificarDependenciasCirculares campos_saude = Inr ()"
  by (simp add: verificarDependenciasCirculares_def grafo_de_def campos_saude_def
      campo_simples_def campo_imc_def campo_classificacao_def map_keys_def map_get_def
      set_has_def set_add_def set_delete_def)

text \<open>
  C8. Creation persists the form whenever its fields pass definition validation and
  the cycle check and its id is not yet stored; whatever the outcome, it either
  leaves the repository as it was (and returns an error) or writes exactly one
  form: the caller's id, name, description and fields, with \<open>schema_version = 1\<close>,
  \<open>is_ativo = True\<close>, the creation time of the call, and \<open>protegido\<close> false unless
  the caller set it. A schema update of a stored active form persists whenever the
  incoming fields pass both checks, the version check does not refuse it and the
  next version fits the version column; whatever the outcome, it either leaves the
  repository as it was or writes exactly one form: the stored form with the
  caller's name, description and fields where supplied and with the stored version
  plus one. Its creation time, active flag and protection flag are those of the
  stored form, both in the object handed to the repository (\<open>dados_atualizacao\<close>)
  and in the row that results.
\<close>

theorem create_update_frame:
  "(validarCampos l (in_campos fi) = Inr () \<and>
    verificarDependenciasCirculares (in_campos fi) = Inr () \<and>
    findById r (in_id fi) = None \<longrightarrow>
      (\<exists>f. criarFormulario l r agora fi = (Inr f, r\<lparr>forms := (forms r)(in_id fi \<mapsto> f)\<rparr>)))
   \<and>
   (case criarFormulario l r agora fi of
      (Inl e, r') \<Rightarrow> r' = r
    | (Inr f, r') \<Rightarrow>
        f = \<lparr>form_id = in_id fi, nome = in_nome fi, descricao = in_descricao fi,
              schema_version = 1, is_ativo = True, data_criacao = agora,
              data_remocao = None, usuario_remocao = None,
              protegido = (case in_protegido fi of Some b \<Rightarrow> b | None \<Rightarrow> False),
              campos = in_campos fi\<rparr> \<and>
        r' = r\<lparr>forms := (forms r)(in_id fi \<mapsto> f)\<rparr>)
   \<and>
   (findById r i = Some old \<and> is_ativo old \<and>
    validarCampos l (campos_ou_vazio upd) = Inr () \<and>
    verificarDependenciasCirculares (campos_ou_vazio upd) = Inr () \<and>
    (p_schema_version upd = None \<or> p_schema_version upd = Some 0 \<or>
     (\<exists>v. p_schema_version upd = Some v \<and> schema_version old < v)) \<and>
    int4 (schema_version old + 1) \<longrightarrow>
      (\<exists>f. atualizarSchemaFormulario l r i upd = (Inr f, r\<lparr>forms := (forms r)(i \<mapsto> f)\<rparr>)))
   \<and>
   (case atualizarSchemaFormulario l r i upd of
      (Inl e, r') \<Rightarrow> r' = r
    | (Inr f, r') \<Rightarrow>
        (\<exists>stored. findById r i = Some stored \<and>
           f = stored\<lparr>
                 nome := (case p_nome upd of Some n \<Rightarrow> n | None \<Rightarrow> nome stored),
                 descricao :=
                   (case p_descricao upd of Some d \<Rightarrow> Some d | None \<Rightarrow> descricao stored),
                 schema_version := schema_version stored + 1,
                 campos := (case p_campos upd of Some cs \<Rightarrow> cs | None \<Rightarrow> campos stored)\<rparr> \<and>
           schema_version f = schema_version stored + 1 \<and>
           data_criacao f = data_criacao stored \<and>
           is_ativo f = is_ativo stored \<and>
           protegido f = protegido stored \<and>
           p_schema_version (dados_atualizacao stored upd) = Some (schema_version stored + 1) \<and>
           p_data_criacao (dados_atualizacao stored upd) = Some (data_criacao stored) \<and>
           p_is_ativo (dados_atualizacao stored upd) = Some (is_ativo stored) \<and>
           p_protegido (dados_atualizacao stored upd) = Some (protegido stored) \<and>
           r' = r\<lparr>forms := (forms r)(i \<mapsto> f)\<rparr>))"
proof (intro conjI impI)
  assume "validarCampos l (in_campos fi) = Inr () \<and>
    verificarDependenciasCirculares (in_campos fi) = Inr () \<and>
    findById r (in_id fi) = None"
  then show "\<exists>f. criarFormulario l r agora fi
                = (Inr f, r\<lparr>forms := (forms r)(in_id fi \<mapsto> f)\<rparr>)"
    by (simp add: criarFormulario_def repo_create_def findById_def int4_def Let_def)
next
  show "case criarFormulario l r agora fi of
      (Inl e, r') \<Rightarrow> r' = r
    | (Inr f, r') \<Rightarrow>
        f = \<lparr>form_id = in_id fi, nome = in_nome fi, descricao = in_descricao fi,
              schema_version = 1, is_ativo = True, data_criacao = agora,
              data_remocao = None, usuario_remocao = None,
              protegido = (case in_protegido fi of Some b \<Rightarrow> b | None \<Rightarrow> False),
              campos = in_campos fi\<rparr> \<and>
        r' = r\<lparr>forms := (forms r)(in_id fi \<mapsto> f)\<rparr>"
    by (auto simp: criarFormulario_def repo_create_def Let_def split: sum.splits if_splits)
next
  assume h: "findById r i = Some old \<and> is_ativo old \<and>
    validarCampos l (campos_ou_vazio upd) = Inr () \<and>
    verificarDependenciasCirculares (campos_ou_vazio upd) = Inr () \<and>
    (p_schema_version upd = None \<or> p_schema_version upd = Some 0 \<or>
     (\<exists>v. p_schema_version upd = Some v \<and> schema_version old < v)) \<and>
    int4 (schema_version old + 1)"
  then have "repo_updateSchema r i (dados_atualizacao old upd)
      = (Inr (old\<lparr>
                 nome := (case p_nome upd of Some n \<Rightarrow> n | None \<Rightarrow> nome old),
                 descricao :=
                   (case p_descricao upd of Some d \<Rightarrow> Some d | None \<Rightarrow> descricao old),
                 schema_version := schema_version old + 1,
                 campos := (case p_campos upd of Some cs \<Rightarrow> cs | None \<Rightarrow> campos old)\<rparr>),
         r\<lparr>forms := (forms r)(i \<mapsto> old\<lparr>
                 nome := (case p_nome upd of Some n \<Rightarrow> n | None \<Rightarrow> nome old),
                 descricao :=
                   (case p_descricao upd of Some d \<Rightarrow> Some d | None \<Rightarrow> descricao old),
                 schema_version := schema_version old + 1,
                 campos := (case p_campos upd of Some cs \<Rightarrow> cs | None \<Rightarrow> campos old)\<rparr>)\<rparr>)"
    by (simp add: repo_updateSchema_def findById_def dados_atualizacao_def Let_def)
  with h show "\<exists>f. atualizarSchemaFormulario l r i upd
                = (Inr f, r\<lparr>forms := (forms r)(i \<mapsto> f)\<rparr>)"
    by (auto simp: atualizarSchemaFormulario_def)
next
  show "case atualizarSchemaFormulario l r i upd of
      (Inl e, r') \<Rightarrow> r' = r
    | (Inr f, r') \<Rightarrow>
        (\<exists>stored. findById r i = Some stored \<and>
           f = stored\<lparr>
                 nome := (case p_nome upd of Some n \<Rightarrow> n | None \<Rightarrow> nome stored),
                 descricao :=
                   (case p_descricao upd of Some d \<Rightarrow> Some d | None \<Rightarrow> descricao stored),
                 schema_version := schema_version stored + 1,
                 campos := (case p_campos upd of Some cs \<Rightarrow> cs | None \<Rightarrow> campos stored)\<rparr> \<and>
           schema_version f = schema_version stored + 1 \<and>
           data_criacao f = data_criacao stored \<and>
           is_ativo f = is_ativo stored \<and>
           protegido f = protegido stored \<and>
           p_schema_version (dados_atualizacao stored upd) = Some (schema_version stored + 1) \<and>
           p_data_criacao (dados_atualizacao stored upd) = Some (data_criacao stored) \<and>
           p_is_ativo (dados_atualizacao stored upd) = Some (is_ativo stored) \<and>
           p_protegido (dados_atualizacao stored upd) = Some (protegido stored) \<and>
           r' = r\<lparr>forms := (forms r)(i \<mapsto> f)\<rparr>)"
    by (auto simp: atualizarSchemaFormulario_def repo_updateSchema_def findById_def
        dados_atualizacao_def Let_def split: sum.splits if_splits option.splits)
qed

theorem create_update_frame_witness:
  "validarCampos lib_fixo (in_campos (entrada_exemplo campos_saude)) = Inr ()
   \<and> verificarDependenciasCirculares (in_campos (entrada_exemplo campos_saude)) = Inr ()
   \<and> findById (repo_com (form_exemplo ''f0'' 1 True []))
        (in_id (entrada_exemplo campos_saude)) = None
   \<and> criarFormulario lib_fixo (repo_com (form_exemplo ''f0'' 1 True [])) 1000
        (entrada_exemplo campos_saude)
     = (Inr (form_exemplo ''f1'' 1 False campos_saude),
        \<lparr>forms = [''f0'' \<mapsto> form_exemplo ''f0'' 1 True [],
                  ''f1'' \<mapsto> form_exemplo ''f1'' 1 False campos_saude],
         responses = Map.empty\<rparr>)
   \<and> atualizarSchemaFormulario lib_fixo (repo_com (form_exemplo ''f0'' 1 True [])) ''f0''
        (atualizacao_vazia\<lparr>p_protegido := Some False, p_campos := Some campos_saude\<rparr>)
     = (Inr (form_exemplo ''f0'' 2 True campos_saude),
        repo_com (form_exemplo ''f0'' 2 True campos_saude))"
proof -
  let ?old = "form_exemplo ''f0'' 1 True []"
  let ?r = "repo_com ?old"
  let ?fi = "entrada_exemplo campos_saude"
  let ?upd = "atualizacao_vazia\<lparr>p_protegido := Some False, p_campos := Some campos_saude\<rparr>"
  have c: "in_campos ?fi = campos_saude" "in_id ?fi = ''f1''" "in_nome ?fi = ''Exemplo''"
    "in_descricao ?fi = None" "in_protegido ?fi = None"
    by (simp_all add: entrada_exemplo_def)
  have u: "campos_ou_vazio ?upd = campos_saude" "p_schema_version ?upd = None"
    "p_nome ?upd = None" "p_descricao ?upd = None" "p_campos ?upd = Some campos_saude"
    by (simp_all add: campos_ou_vazio_def atualizacao_vazia_def)
  have h1: "validarCampos lib_fixo (in_campos ?fi) = Inr ()"
    and h2: "verificarDependenciasCirculares (in_campos ?fi) = Inr ()"
    by (simp_all add: c validarCampos_saude verificar_saude)
  have h3: "findById ?r (in_id ?fi) = None"
    by (simp add: c findById_def repo_com_def form_exemplo_def)
  have h4: "findById ?r ''f0'' = Some ?old" and h5: "is_ativo ?old"
    and h6: "int4 (schema_version ?old + 1)"
    by (simp_all add: findById_def repo_com_def form_exemplo_def int4_def)
  have h7: "validarCampos lib_fixo (campos_ou_vazio ?upd) = Inr ()"
    and h8: "verificarDependenciasCirculares (campos_ou_vazio ?upd) = Inr ()"
    by (simp_all add: u validarCampos_saude verificar_saude)
  note t = create_update_frame[where l = lib_fixo and r = ?r and agora = 1000 and fi = ?fi
      and i = "''f0''" and old = ?old and upd = ?upd]
  from t h1 h2 h3 obtain f where
    f: "criarFormulario lib_fixo ?r 1000 ?fi = (Inr f, ?r\<lparr>forms := (forms ?r)(in_id ?fi \<mapsto> f)\<rparr>)"
    by blast
  from t f have "f = \<lparr>form_id = in_id ?fi, nome = in_nome ?fi, descricao = in_descricao ?fi,
              schema_version = 1, is_ativo = True, data_criacao = 1000,
              data_remocao = None, usuario_remocao = None,
              protegido = (case in_protegido ?fi of Some b \<Rightarrow> b | None \<Rightarrow> False),
              campos = in_campos ?fi\<rparr>"
    by simp
  then have fe: "f = form_exemplo ''f1'' 1 False campos_saude"
    by (simp add: c form_exemplo_def)
  have a: "criarFormulario lib_fixo ?r 1000 ?fi
     = (Inr (form_exemplo ''f1'' 1 False campos_saude),
        \<lparr>forms = [''f0'' \<mapsto> ?old, ''f1'' \<mapsto> form_exemplo ''f1'' 1 False campos_saude],
         responses = Map.empty\<rparr>)"
    unfolding f fe by (simp add: c repo_com_def form_exemplo_def)
  from t h4 h5 h6 h7 h8 u(2) obtain g where
    g: "atualizarSchemaFormulario lib_fixo ?r ''f0'' ?upd
          = (Inr g, ?r\<lparr>forms := (forms ?r)(''f0'' \<mapsto> g)\<rparr>)"
    by blast
  from t g h4 have "g = ?old\<lparr>
                 nome := (case p_nome ?upd of Some n \<Rightarrow> n | None \<Rightarrow> nome ?old),
                 descricao :=
                   (case p_descricao ?upd of Some d \<Rightarrow> Some d | None \<Rightarrow> descricao ?old),
                 schema_version := schema_version ?old + 1,
                 campos := (case p_campos ?upd of Some cs \<Rightarrow> cs | None \<Rightarrow> campos ?old)\<rparr>"
    by auto
  then have ge: "g = form_exemplo ''f0'' 2 True campos_saude"
    by (simp add: u form_exemplo_def)
  have b: "atualizarSchemaFormulario lib_fixo ?r ''f0'' ?upd
     = (Inr (form_exemplo ''f0'' 2 True campos_saude),
        repo_com (form_exemplo ''f0'' 2 True campos_saude))"
    unfolding g ge by (simp add: repo_com_def form_exemplo_def)
  from h1 h2 h3 a b show ?thesis by blast
qed

subsection \<open>What the validator and the loops can throw\<close>

lemma number_rule_error: "number_rule schema v = Inl e \<Longrightarrow> erro_de_validacao e"
  by (auto simp: number_rule_def number_min_def number_max_def
      split: if_splits option.splits jsval.splits zod.splits sum.splits)

lemma number_rules_error: "number_rules schema vs = Inl e \<Longrightarrow> erro_de_validacao e"
  by (induction vs arbitrary: schema) (auto split: sum.splits dest: number_rule_error)

lemma getValidator_error: "getValidator l f = Inl e \<Longrightarrow> erro_de_validacao e"
  by (auto simp: getValidator_def Let_def applyTextValidations_def applyNumberValidations_def
      applyCalculatedValidations_def string_min_def string_regex_def number_int_def
      split: tipo.splits if_splits option.splits jsval.splits zod.splits sum.splits
      dest: number_rules_error)

lemma validate_error: "validate l v f = Inl e \<Longrightarrow> erro_de_validacao e"
  by (auto simp: validate_def split: sum.splits zstatus.splits dest: getValidator_error)

lemma enviar_omitted:
  assumes "findById r fId = Some f" "is_ativo f"
  shows "enviarResposta l r now agora fId rs None =
     (case validarRespostas l (campos f) rs of
        Inl e \<Rightarrow> (Inl e, r)
      | Inr u \<Rightarrow>
          (case calcularCampos l (filter (\<lambda>c. tipo c = Calculated) (campos f)) rs Map.empty of
             Inl e \<Rightarrow> (Inl e, r)
           | Inr cc \<Rightarrow>
               repo_saveResponse r fId
                 \<lparr>resp_id = ''resposta_'' @ string_of_nat now, formId = fId,
                  resp_schema_version = schema_version f, respostas = rs, calculados = cc,
                  criado_em = agora, resp_is_ativo = True, resp_data_remocao = None,
                  resp_usuario_remocao = None\<rparr>))"
  using assms by (simp add: enviarResposta_def)


lemma avaliarCondicional_error:
  "avaliarCondicional c rs = Inl e \<Longrightarrow> e = ExpressaoCondicionalInvalida c"
  by (auto simp: avaliarCondicional_def split: list.splits if_splits)

lemma validarRespostas_not_version:
  "validarRespostas l cs rs \<noteq> Inl VersaoSchemaDesatualizada"
proof (induction cs)
  case Nil
  show ?case by simp
next
  case (Cons c cs)
  then show ?case
    by (auto split: sum.splits option.splits if_splits
        dest: validate_error avaliarCondicional_error)
qed

lemma calculate_not_version: "calculate l f rs \<noteq> Inl VersaoSchemaDesatualizada"
  by (auto simp: calculate_def Let_def split: option.splits jsval.splits if_splits)

lemma calcularCampos_not_version:
  "calcularCampos l cs rs acc \<noteq> Inl VersaoSchemaDesatualizada"
proof (induction cs arbitrary: acc)
  case Nil
  show ?case by simp
next
  case (Cons c cs)
  then show ?case using calculate_not_version[of l c rs] by (auto split: sum.splits)
qed

lemma repo_saveResponse_cases:
  "repo_saveResponse r fId resp = (res, r') \<Longrightarrow>
     (res = Inl PersistenceError \<and> r' = r) \<or>
     (\<exists>row. res = Inr row \<and> resp_id row = resp_id resp \<and>
            resp_schema_version row = resp_schema_version resp \<and>
            respostas row = respostas resp \<and> calculados row = calculados resp \<and>
            responses r (resp_id resp) = None \<and>
            r' = r\<lparr>responses := (responses r)(resp_id resp \<mapsto> row)\<rparr>)"
  by (auto simp: repo_saveResponse_def Let_def split: if_splits)

subsection \<open>Schema version on submission\<close>

text \<open>
  C6 (as amended). For a stored, active form: a submission that names a schema
  version other than zero and other than the form's current version fails with
  \<open>VersaoSchemaDesatualizada\<close> and leaves the repository unchanged. A submission
  that names no version, or names zero (which \<^verbatim>\<open>schema_version || ...\<close> treats as
  no version), is processed exactly as one naming the current version: it never
  fails the version check, and a response it saves carries the current version.
\<close>

theorem submit_version_check:
  assumes "findById r fId = Some f" and "is_ativo f"
  shows "(v \<noteq> 0 \<and> v \<noteq> schema_version f \<longrightarrow>
            enviarResposta l r now agora fId rs (Some v) = (Inl VersaoSchemaDesatualizada, r))
       \<and> enviarResposta l r now agora fId rs (Some 0) = enviarResposta l r now agora fId rs None
       \<and> enviarResposta l r now agora fId rs None
            = enviarResposta l r now agora fId rs (Some (schema_version f))
       \<and> fst (enviarResposta l r now agora fId rs None) \<noteq> Inl VersaoSchemaDesatualizada
       \<and> (\<forall>resp r'. enviarResposta l r now agora fId rs None = (Inr resp, r') \<longrightarrow>
             resp_schema_version resp = schema_version f)"
proof (intro conjI allI impI)
  assume "v \<noteq> 0 \<and> v \<noteq> schema_version f"
  with assms show "enviarResposta l r now agora fId rs (Some v) = (Inl VersaoSchemaDesatualizada, r)"
    by (simp add: enviarResposta_def)
next
  from assms show "enviarResposta l r now agora fId rs (Some 0)
      = enviarResposta l r now agora fId rs None"
    by (simp add: enviarResposta_def)
next
  from assms show "enviarResposta l r now agora fId rs None
      = enviarResposta l r now agora fId rs (Some (schema_version f))"
    by (simp add: enviarResposta_def)
next
  show "fst (enviarResposta l r now agora fId rs None) \<noteq> Inl VersaoSchemaDesatualizada"
  proof (cases "validarRespostas l (campos f) rs")
    case (Inl e)
    then have "e \<noteq> VersaoSchemaDesatualizada"
      using validarRespostas_not_version[of l "campos f" rs] by auto
    with Inl assms show ?thesis by (simp add: enviar_omitted)
  next
    case (Inr u)
    note v = Inr
    show ?thesis
    proof (cases "calcularCampos l (filter (\<lambda>c. tipo c = Calculated) (campos f)) rs Map.empty")
      case (Inl e)
      then have "e \<noteq> VersaoSchemaDesatualizada"
        using calcularCampos_not_version[of l _ rs Map.empty] by auto
      with Inl v assms show ?thesis by (simp add: enviar_omitted)
    next
      case (Inr cc)
      with v assms show ?thesis
        by (simp add: enviar_omitted repo_saveResponse_def Let_def)
    qed
  qed
next
  fix resp r'
  assume "enviarResposta l r now agora fId rs None = (Inr resp, r')"
  with assms obtain cc where
    "repo_saveResponse r fId
       \<lparr>resp_id = ''resposta_'' @ string_of_nat now, formId = fId,
        resp_schema_version = schema_version f, respostas = rs, calculados = cc,
        criado_em = agora, resp_is_ativo = True, resp_data_remocao = None,
        resp_usuario_remocao = None\<rparr> = (Inr resp, r')"
    by (cases "validarRespostas l (campos f) rs";
        cases "calcularCampos l (filter (\<lambda>c. tipo c = Calculated) (campos f)) rs Map.empty")
       (simp_all add: enviar_omitted)
  from repo_saveResponse_cases[OF this]
  show "resp_schema_version resp = schema_version f" by auto
qed

text \<open>C6, as stated, fails for an explicit version of zero: the form is at version 2, the
  submission names version 0, and the response is saved against version 2.\<close>

theorem submit_version_zero_counterexample:
  "enviarResposta lib_fixo (repo_com (form_exemplo ''f1'' 2 False [])) 5 6 ''f1'' Map.empty (Some 0)
     = (Inr \<lparr>resp_id = ''resposta_5'', formId = ''f1'', resp_schema_version = 2,
              respostas = Map.empty, calculados = Map.empty, criado_em = 6,
              resp_is_ativo = True, resp_data_remocao = None, resp_usuario_remocao = None\<rparr>,
        \<lparr>forms = [''f1'' \<mapsto> form_exemplo ''f1'' 2 False []],
         responses = [''resposta_5'' \<mapsto>
           \<lparr>resp_id = ''resposta_5'', formId = ''f1'', resp_schema_version = 2,
            respostas = Map.empty, calculados = Map.empty, criado_em = 6,
            resp_is_ativo = True, resp_data_remocao = None, resp_usuario_remocao = None\<rparr>]\<rparr>)"
  by (simp add: enviarResposta_def findById_def repo_com_def form_exemplo_def
      repo_saveResponse_def int4_def Let_def digit_char_def string_of_nat.simps)

theorem submit_version_check_witness:
  "findById (repo_com (form_exemplo ''f1'' 2 False [])) ''f1'' = Some (form_exemplo ''f1'' 2 False [])
   \<and> is_ativo (form_exemplo ''f1'' 2 False [])
   \<and> enviarResposta lib_fixo (repo_com (form_exemplo ''f1'' 2 False [])) 5 6 ''f1'' Map.empty (Some 1)
       = (Inl VersaoSchemaDesatualizada, repo_com (form_exemplo ''f1'' 2 False []))
   \<and> fst (enviarResposta lib_fixo (repo_com (form_exemplo ''f1'' 2 False [])) 5 6 ''f1'' Map.empty None)
       \<noteq> Inl VersaoSchemaDesatualizada"
proof -
  have a: "findById (repo_com (form_exemplo ''f1'' 2 False [])) ''f1''
      = Some (form_exemplo ''f1'' 2 False [])"
    by (simp add: findById_def repo_com_def form_exemplo_def)
  have b: "is_ativo (form_exemplo ''f1'' 2 False [])"
    by (simp add: form_exemplo_def)
  have c: "(1::int) \<noteq> 0 \<and> 1 \<noteq> schema_version (form_exemplo ''f1'' 2 False [])"
    by (simp add: form_exemplo_def)
  from c submit_version_check[OF a b, of 1 lib_fixo 5 6 Map.empty]
  have d: "enviarResposta lib_fixo (repo_com (form_exemplo ''f1'' 2 False [])) 5 6 ''f1''
         Map.empty (Some 1)
       = (Inl VersaoSchemaDesatualizada, repo_com (form_exemplo ''f1'' 2 False []))"
    and e: "fst (enviarResposta lib_fixo (repo_com (form_exemplo ''f1'' 2 False [])) 5 6 ''f1''
         Map.empty None) \<noteq> Inl VersaoSchemaDesatualizada"
    by blast+
  from a b d e show ?thesis by blast
qed

subsection \<open>Schema version on update\<close>

text \<open>
  C7 (as amended). For a stored, active form and an update that names a schema
  version \<open>v\<close>: if \<open>v\<close> is not zero and not greater than the stored version, the update
  fails and the repository is unchanged; the failure is \<open>VersaoSchemaNaoMaior\<close>
  whenever the incoming fields pass definition validation and the cycle check,
  which run first. If \<open>v\<close> is zero, which \<^verbatim>\<open>schema_version && ...\<close> treats as no
  version, the update behaves exactly as the same update naming no version. If \<open>v\<close>
  is the stored version plus one, the incoming fields pass both checks and that
  version fits the 32-bit version column, the update succeeds and writes that
  version.
\<close>

theorem update_version_conflict:
  assumes "findById r i = Some f" and "is_ativo f" and "p_schema_version upd = Some v"
  shows "(v \<noteq> 0 \<and> v \<le> schema_version f \<longrightarrow>
            (\<exists>e. atualizarSchemaFormulario l r i upd = (Inl e, r)) \<and>
            (validarCampos l (campos_ou_vazio upd) = Inr () \<and>
             verificarDependenciasCirculares (campos_ou_vazio upd) = Inr () \<longrightarrow>
               atualizarSchemaFormulario l r i upd
                 = (Inl (VersaoSchemaNaoMaior v (schema_version f)), r)))
       \<and> (v = 0 \<longrightarrow>
            atualizarSchemaFormulario l r i upd
              = atualizarSchemaFormulario l r i (upd\<lparr>p_schema_version := None\<rparr>))
       \<and> (v = schema_version f + 1 \<and>
            validarCampos l (campos_ou_vazio upd) = Inr () \<and>
            verificarDependenciasCirculares (campos_ou_vazio upd) = Inr () \<and>
            int4 (schema_version f + 1) \<longrightarrow>
              (\<exists>f'. atualizarSchemaFormulario l r i upd
                      = (Inr f', r\<lparr>forms := (forms r)(i \<mapsto> f')\<rparr>) \<and>
                    schema_version f' = schema_version f + 1))"
proof (intro conjI impI)
  assume "v \<noteq> 0 \<and> v \<le> schema_version f"
  with assms show "\<exists>e. atualizarSchemaFormulario l r i upd = (Inl e, r)"
    by (cases "validarCampos l (campos_ou_vazio upd)";
        cases "verificarDependenciasCirculares (campos_ou_vazio upd)")
       (simp_all add: atualizarSchemaFormulario_def)
next
  assume "v \<noteq> 0 \<and> v \<le> schema_version f"
    and "validarCampos l (campos_ou_vazio upd) = Inr () \<and>
         verificarDependenciasCirculares (campos_ou_vazio upd) = Inr ()"
  with assms show "atualizarSchemaFormulario l r i upd
      = (Inl (VersaoSchemaNaoMaior v (schema_version f)), r)"
    by (simp add: atualizarSchemaFormulario_def)
next
  assume z: "v = 0"
  have d: "dados_atualizacao f (upd\<lparr>p_schema_version := None\<rparr>) = dados_atualizacao f upd"
    by (simp add: dados_atualizacao_def)
  have c: "campos_ou_vazio (upd\<lparr>p_schema_version := None\<rparr>) = campos_ou_vazio upd"
    by (simp add: campos_ou_vazio_def)
  from assms z show "atualizarSchemaFormulario l r i upd
      = atualizarSchemaFormulario l r i (upd\<lparr>p_schema_version := None\<rparr>)"
    by (cases "validarCampos l (campos_ou_vazio upd)";
        cases "verificarDependenciasCirculares (campos_ou_vazio upd)")
       (simp_all add: atualizarSchemaFormulario_def d c)
next
  assume "v = schema_version f + 1 \<and>
          validarCampos l (campos_ou_vazio upd) = Inr () \<and>
          verificarDependenciasCirculares (campos_ou_vazio upd) = Inr () \<and>
          int4 (schema_version f + 1)"
  with assms show "\<exists>f'. atualizarSchemaFormulario l r i upd
                      = (Inr f', r\<lparr>forms := (forms r)(i \<mapsto> f')\<rparr>) \<and>
                    schema_version f' = schema_version f + 1"
    by (simp add: atualizarSchemaFormulario_def repo_updateSchema_def findById_def
        dados_atualizacao_def Let_def)
qed

text \<open>C7, as stated, fails for an explicit version of zero: the form is at version 2, the
  update names version 0, and the update is written as version 3.\<close>

theorem update_version_zero_counterexample:
  "atualizarSchemaFormulario lib_fixo (repo_com (form_exemplo ''f1'' 2 False [])) ''f1''
      (atualizacao_vazia\<lparr>p_schema_version := Some 0\<rparr>)
     = (Inr (form_exemplo ''f1'' 3 False []), repo_com (form_exemplo ''f1'' 3 False []))"
  by (simp add: atualizarSchemaFormulario_def verificar_vazio repo_updateSchema_def
      findById_def repo_com_def form_exemplo_def atualizacao_vazia_def dados_atualizacao_def
      campos_ou_vazio_def int4_def Let_def)

theorem update_version_conflict_witness:
  "atualizarSchemaFormulario lib_fixo (repo_com (form_exemplo ''f1'' 2 False [])) ''f1''
      (atualizacao_vazia\<lparr>p_schema_version := Some 2, p_campos := Some campos_saude\<rparr>)
     = (Inl (VersaoSchemaNaoMaior 2 2), repo_com (form_exemplo ''f1'' 2 False []))
   \<and> atualizarSchemaFormulario lib_fixo (repo_com (form_exemplo ''f1'' 2 False [])) ''f1''
        (atualizacao_vazia\<lparr>p_schema_version := Some 0, p_campos := Some campos_saude\<rparr>)
     = atualizarSchemaFormulario lib_fixo (repo_com (form_exemplo ''f1'' 2 False [])) ''f1''
        (atualizacao_vazia\<lparr>p_schema_version := None, p_campos := Some campos_saude\<rparr>)
   \<and> (\<exists>f'. atualizarSchemaFormulario lib_fixo (repo_com (form_exemplo ''f1'' 2 False [])) ''f1''
              (atualizacao_vazia\<lparr>p_schema_version := Some 3, p_campos := Some campos_saude\<rparr>)
             = (Inr f', (repo_com (form_exemplo ''f1'' 2 False []))
                    \<lparr>forms := (forms (repo_com (form_exemplo ''f1'' 2 False [])))(''f1'' \<mapsto> f')\<rparr>)
           \<and> schema_version f' = 3)"
proof -
  let ?r = "repo_com (form_exemplo ''f1'' 2 False [])"
  let ?f = "form_exemplo ''f1'' 2 False []"
  let ?upd = "\<lambda>k. atualizacao_vazia\<lparr>p_schema_version := Some k, p_campos := Some campos_saude\<rparr>"
  have a: "findById ?r ''f1'' = Some ?f"
    by (simp add: findById_def repo_com_def form_exemplo_def)
  have b: "is_ativo ?f" and sv: "schema_version ?f = 2" and i4: "int4 (schema_version ?f + 1)"
    by (simp_all add: form_exemplo_def int4_def)
  have c: "p_schema_version (?upd k) = Some k" for k
    by simp
  have ok: "validarCampos lib_fixo (campos_ou_vazio (?upd k)) = Inr ()
      \<and> verificarDependenciasCirculares (campos_ou_vazio (?upd k)) = Inr ()"
    for k
    by (simp add: campos_ou_vazio_def validarCampos_saude verificar_saude)
  from update_version_conflict[OF a b c, of 2 lib_fixo] sv ok[of 2]
  have d: "atualizarSchemaFormulario lib_fixo ?r ''f1'' (?upd 2)
     = (Inl (VersaoSchemaNaoMaior 2 2), ?r)"
    by simp
  from update_version_conflict[OF a b c, of 0 lib_fixo]
  have "atualizarSchemaFormulario lib_fixo ?r ''f1'' (?upd 0)
     = atualizarSchemaFormulario lib_fixo ?r ''f1'' ((?upd 0)\<lparr>p_schema_version := None\<rparr>)"
    by blast
  then have z: "atualizarSchemaFormulario lib_fixo ?r ''f1'' (?upd 0)
     = atualizarSchemaFormulario lib_fixo ?r ''f1''
         (atualizacao_vazia\<lparr>p_schema_version := None, p_campos := Some campos_saude\<rparr>)"
    by (simp add: atualizacao_vazia_def)
  from update_version_conflict[OF a b c, of 3 lib_fixo] sv ok[of 3] i4
  have e: "\<exists>f'. atualizarSchemaFormulario lib_fixo ?r ''f1'' (?upd 3)
             = (Inr f', ?r\<lparr>forms := (forms ?r)(''f1'' \<mapsto> f')\<rparr>)
           \<and> schema_version f' = 3"
    by simp
  from d z e show ?thesis by blast
qed

subsection \<open>Required fields and definition-level validation\<close>

lemma applyText_string:
  "\<exists>cs'. applyTextValidations (ZodString cs) f = Inr (ZodString cs')"
  by (auto simp: applyTextValidations_def Let_def string_min_def string_regex_def
      split: option.splits jsval.splits)

lemma number_rule_number:
  "\<exists>cs'. number_rule (ZodNumber cs) v = Inr (ZodNumber cs')"
  by (auto simp: number_rule_def number_min_def number_max_def split: option.splits jsval.splits)

lemma number_rules_number:
  "\<exists>cs'. number_rules (ZodNumber cs) vs = Inr (ZodNumber cs')"
proof (induction vs arbitrary: cs)
  case Nil
  show ?case by simp
next
  case (Cons v vs)
  obtain cs1 where "number_rule (ZodNumber cs) v = Inr (ZodNumber cs1)"
    using number_rule_number by blast
  with Cons[of cs1] show ?case by simp
qed

lemma applyNumber_number:
  "\<exists>cs'. applyNumberValidations (ZodNumber cs) f = Inr (ZodNumber cs')"
  using number_rules_number
  by (auto simp: applyNumberValidations_def number_int_def)

lemma applyDate_aborted:
  "zparse l schema v = Aborted iss \<Longrightarrow> zparse l (applyDateValidations l schema f) v = Aborted iss"
  by (auto simp: applyDateValidations_def Let_def split: option.splits)

lemma applySelect_undefined:
  "\<exists>iss. zparse l (applySelectValidations (ZodString cs) f) VUndefined = Aborted iss"
  by (auto simp: applySelectValidations_def Let_def)

lemma required_absent_rejected:
  assumes "obrigatorio f = Some True"
    and "tipo f \<in> {Text, Number, Boolean, Date, Select}"
  shows "\<exists>iss. validate l VUndefined f = Inl (ZodError iss)"
proof -
  have req: "bool_truthy (obrigatorio f)" using assms(1) by (simp add: bool_truthy_def)
  from assms(2) consider "tipo f = Text" | "tipo f = Number" | "tipo f = Boolean"
    | "tipo f = Date" | "tipo f = Select" by auto
  then show ?thesis
  proof cases
    case 1
    obtain cs' where "applyTextValidations (ZodString []) f = Inr (ZodString cs')"
      using applyText_string by blast
    with 1 req show ?thesis
      by (simp add: validate_def getValidator_def baseValidators_def)
  next
    case 2
    obtain cs' where "applyNumberValidations (ZodNumber []) f = Inr (ZodNumber cs')"
      using applyNumber_number by blast
    with 2 req show ?thesis
      by (simp add: validate_def getValidator_def baseValidators_def)
  next
    case 3
    with req show ?thesis
      by (simp add: validate_def getValidator_def baseValidators_def)
  next
    case 4
    have "zparse l (ZodEffects (ZodString [])
                 (\<lambda>val. \<not> truthy val \<or> date_of l val \<noteq> None) DataInvalida) VUndefined
          = Aborted [InvalidType ''string'']"
      by simp
    from applyDate_aborted[OF this, of f] 4 req show ?thesis
      by (simp add: validate_def getValidator_def baseValidators_def)
  next
    case 5
    obtain iss where "zparse l (applySelectValidations (ZodString []) f) VUndefined = Aborted iss"
      using applySelect_undefined by blast
    with 5 req show ?thesis
      by (simp add: validate_def getValidator_def baseValidators_def)
  qed
qed

lemma validarCampos_fails:
  "f \<in> set cs \<Longrightarrow> validate l VUndefined f = Inl e' \<Longrightarrow>
     \<exists>e. validarCampos l cs = Inl e \<and> erro_de_validacao e"
proof (induction cs)
  case Nil
  then show ?case by simp
next
  case (Cons c cs)
  show ?case
  proof (cases "validate l VUndefined c")
    case (Inl e)
    then show ?thesis using validate_error[OF Inl] by simp
  next
    case (Inr u)
    with Cons show ?thesis by auto
  qed
qed

text \<open>
  C3. If the field list holds a field with \<open>obrigatorio = true\<close> whose kind is
  text, number, boolean, date or select, then the validator rejects the absent value
  for that field, so \<open>validarCampos\<close> fails with a validation error; creation fails
  with that error and writes nothing; a schema update fails and writes nothing,
  with that same error whenever the stored form exists and is active (otherwise
  with the not-found or inactive error that comes first).
\<close>

theorem required_field_blocks_definition:
  assumes "f \<in> set cs" and "obrigatorio f = Some True"
    and "tipo f \<in> {Text, Number, Boolean, Date, Select}"
  shows "\<exists>e. (\<exists>iss. validate l VUndefined f = Inl (ZodError iss))
           \<and> erro_de_validacao e \<and> validarCampos l cs = Inl e
           \<and> criarFormulario l r agora (fi\<lparr>in_campos := cs\<rparr>) = (Inl e, r)
           \<and> (\<forall>stored. findById r i = Some stored \<and> is_ativo stored \<longrightarrow>
                 atualizarSchemaFormulario l r i (upd\<lparr>p_campos := Some cs\<rparr>) = (Inl e, r))
           \<and> (\<exists>e'. atualizarSchemaFormulario l r i (upd\<lparr>p_campos := Some cs\<rparr>) = (Inl e', r))"
proof -
  obtain iss where v: "validate l VUndefined f = Inl (ZodError iss)"
    using required_absent_rejected[OF assms(2,3)] by blast
  from validarCampos_fails[OF assms(1) this]
  obtain e where e: "validarCampos l cs = Inl e" "erro_de_validacao e" by blast
  have c: "criarFormulario l r agora (fi\<lparr>in_campos := cs\<rparr>) = (Inl e, r)"
    using e by (simp add: criarFormulario_def)
  have u: "atualizarSchemaFormulario l r i (upd\<lparr>p_campos := Some cs\<rparr>) = (Inl e, r)"
    if "findById r i = Some stored" "is_ativo stored" for stored
    using e that by (simp add: atualizarSchemaFormulario_def campos_ou_vazio_def)
  have a: "\<exists>e'. atualizarSchemaFormulario l r i (upd\<lparr>p_campos := Some cs\<rparr>) = (Inl e', r)"
    using e by (auto simp: atualizarSchemaFormulario_def campos_ou_vazio_def split: option.splits)
  from v e c u a show ?thesis by blast
qed

theorem required_field_blocks_definition_witness:
  "campo_nome_obrigatorio \<in> set [campo_nome_obrigatorio]
   \<and> obrigatorio campo_nome_obrigatorio = Some True
   \<and> tipo campo_nome_obrigatorio \<in> {Text, Number, Boolean, Date, Select}
   \<and> criarFormulario lib_fixo repo_vazio 1000 (entrada_exemplo [campo_nome_obrigatorio])
       = (Inl (ZodError [InvalidType ''string'']), repo_vazio)
   \<and> atualizarSchemaFormulario lib_fixo (repo_com (form_exemplo ''f1'' 1 False [])) ''f1''
         (atualizacao_vazia\<lparr>p_campos := Some [campo_nome_obrigatorio]\<rparr>)
       = (Inl (ZodError [InvalidType ''string'']), repo_com (form_exemplo ''f1'' 1 False []))"
proof -
  have h1: "campo_nome_obrigatorio \<in> set [campo_nome_obrigatorio]" by simp
  have h2: "obrigatorio campo_nome_obrigatorio = Some True"
    by (simp add: campo_nome_obrigatorio_def)
  have h3: "tipo campo_nome_obrigatorio \<in> {Text, Number, Boolean, Date, Select}"
    by (simp add: campo_nome_obrigatorio_def campo_simples_def)
  have v: "validarCampos lib_fixo [campo_nome_obrigatorio] = Inl (ZodError [InvalidType ''string''])"
    by (simp add: campo_nome_obrigatorio_def campo_simples_def validate_def getValidator_def
        baseValidators_def bool_truthy_def applyTextValidations_def validacoes_of_def Let_def)
  have s: "findById (repo_com (form_exemplo ''f1'' 1 False [])) ''f1''
             = Some (form_exemplo ''f1'' 1 False []) \<and> is_ativo (form_exemplo ''f1'' 1 False [])"
    by (simp add: findById_def repo_com_def form_exemplo_def)
  from required_field_blocks_definition[OF h1 h2 h3, of lib_fixo repo_vazio 1000
      "entrada_exemplo []" "''f1''" atualizacao_vazia] v
  have c: "criarFormulario lib_fixo repo_vazio 1000 (entrada_exemplo [campo_nome_obrigatorio])
       = (Inl (ZodError [InvalidType ''string'']), repo_vazio)"
    by (auto simp: entrada_exemplo_def)
  from required_field_blocks_definition[OF h1 h2 h3, of lib_fixo
      "repo_com (form_exemplo ''f1'' 1 False [])" 1000 "entrada_exemplo []" "''f1''"
      atualizacao_vazia] v s
  have u: "atualizarSchemaFormulario lib_fixo (repo_com (form_exemplo ''f1'' 1 False [])) ''f1''
         (atualizacao_vazia\<lparr>p_campos := Some [campo_nome_obrigatorio]\<rparr>)
       = (Inl (ZodError [InvalidType ''string'']), repo_com (form_exemplo ''f1'' 1 False []))"
    by auto
  from h1 h2 h3 c u show ?thesis by blast
qed

subsection \<open>Calculated fields and the validator\<close>

lemma calculated_schema:
  assumes "tipo f = Calculated"
  shows "getValidator l f =
     (if \<not> str_truthy (formula f) \<or> dependencias f = None then Inl CampoCalculadoDeveTerFormula
      else Inr (ZodEffects
                  (if \<not> bool_truthy (obrigatorio f) then ZodOptional ZodUndefined else ZodUndefined)
                  (\<lambda>v. v = VUndefined) CamposCalculadosSemValorManual))"
  using assms
  by (simp add: getValidator_def baseValidators_def applyCalculatedValidations_def Let_def)

text \<open>
  C9. What the validator does with a field of kind calculated. Without a formula
  (unset or empty) or without dependencies, validation throws whatever the candidate
  value is. With both, the absent value is accepted and every other value is
  rejected. The rejection is the type mismatch of \<^verbatim>\<open>z.undefined()\<close>: the refinement
  that carries the message about manually supplied values wraps a schema that has
  already aborted, so it does not run, and that message is never produced, although
  the unit test of the validator expects it.
\<close>

theorem calculated_validation:
  assumes "tipo f = Calculated"
  shows "(\<not> str_truthy (formula f) \<or> dependencias f = None \<longrightarrow>
            validate l v f = Inl CampoCalculadoDeveTerFormula)
       \<and> (str_truthy (formula f) \<and> dependencias f \<noteq> None \<longrightarrow>
            validate l v f =
              (if v = VUndefined then Inr () else Inl (ZodError [InvalidType ''undefined''])))"
  using assms
  by (cases v) (auto simp: validate_def calculated_schema)

theorem calculated_validation_witness:
  "tipo campo_imc = Calculated
   \<and> validate lib_fixo VUndefined campo_imc = Inr ()
   \<and> validate lib_fixo (VNum (49 / 2)) campo_imc = Inl (ZodError [InvalidType ''undefined''])
   \<and> validate lib_fixo (VNum (49 / 2)) (campo_simples ''imc'' Calculated)
       = Inl CampoCalculadoDeveTerFormula"
proof -
  have t: "tipo campo_imc = Calculated" "tipo (campo_simples ''imc'' Calculated) = Calculated"
    by (simp_all add: campo_imc_def campo_simples_def)
  have d: "str_truthy (formula campo_imc) \<and> dependencias campo_imc \<noteq> None"
    by (simp add: campo_imc_def campo_simples_def str_truthy_def)
  have n: "\<not> str_truthy (formula (campo_simples ''imc'' Calculated))"
    by (simp add: campo_simples_def str_truthy_def)
  from calculated_validation[OF t(1), of lib_fixo VUndefined] d
  have a: "validate lib_fixo VUndefined campo_imc = Inr ()" by simp
  from calculated_validation[OF t(1), of lib_fixo "VNum (49 / 2)"] d
  have b: "validate lib_fixo (VNum (49 / 2)) campo_imc = Inl (ZodError [InvalidType ''undefined''])"
    by simp
  from calculated_validation[OF t(2), of lib_fixo "VNum (49 / 2)"] n
  have c: "validate lib_fixo (VNum (49 / 2)) (campo_simples ''imc'' Calculated)
       = Inl CampoCalculadoDeveTerFormula"
    by simp
  from t a b c show ?thesis by blast
qed

subsection \<open>Response identifiers\<close>

lemma digit_char_inj:
  assumes "d < 10" and "d' < 10" and "digit_char d = digit_char d'"
  shows "d = d'"
proof -
  have "d \<in> {0, 1, 2, 3, 4, 5, 6, 7, 8, 9}" "d' \<in> {0, 1, 2, 3, 4, 5, 6, 7, 8, 9}"
    using assms(1,2) by auto
  with assms(3) show ?thesis
    by (auto simp: digit_char_def)
qed

lemma string_of_nat_nonempty: "string_of_nat n \<noteq> []"
  by (subst string_of_nat.simps) simp

lemma string_of_nat_small: "n < 10 \<Longrightarrow> string_of_nat n = [digit_char n]"
  by (subst string_of_nat.simps) simp

lemma string_of_nat_big:
  "\<not> n < 10 \<Longrightarrow> string_of_nat n = string_of_nat (n div 10) @ [digit_char (n mod 10)]"
  by (subst string_of_nat.simps) simp

lemma string_of_nat_inj: "string_of_nat n = string_of_nat m \<Longrightarrow> n = m"
proof (induction n arbitrary: m rule: string_of_nat.induct)
  case (1 n)
  show ?case
  proof (cases "n < 10")
    case True
    note n = True
    show ?thesis
    proof (cases "m < 10")
      case True
      with n "1.prems" show ?thesis
        by (simp add: string_of_nat_small digit_char_inj)
    next
      case False
      with n "1.prems" show ?thesis
        using string_of_nat_nonempty[of "m div 10"]
        by (simp add: string_of_nat_small string_of_nat_big)
    qed
  next
    case False
    note n = False
    show ?thesis
    proof (cases "m < 10")
      case True
      with n "1.prems" show ?thesis
        using string_of_nat_nonempty[of "n div 10"]
        by (simp add: string_of_nat_small string_of_nat_big)
    next
      case False
      with n "1.prems" have eq: "string_of_nat (n div 10) = string_of_nat (m div 10)"
        and dg: "digit_char (n mod 10) = digit_char (m mod 10)"
        by (simp_all add: string_of_nat_big)
      from "1.IH"[OF n eq] have "n div 10 = m div 10" .
      moreover from dg have "n mod 10 = m mod 10"
        by (intro digit_char_inj) simp_all
      ultimately show ?thesis
        by (metis div_mult_mod_eq)
    qed
  qed
qed

lemma enviar_success:
  assumes "enviarResposta l r now agora fId rs sv = (Inr resp, r')"
  shows "\<exists>f cc. findById r fId = Some f \<and> is_ativo f
           \<and> versao_resolvida sv f = schema_version f
           \<and> validarRespostas l (campos f) rs = Inr ()
           \<and> calcularCampos l (filter (\<lambda>c. tipo c = Calculated) (campos f)) rs Map.empty = Inr cc
           \<and> responses r (''resposta_'' @ string_of_nat now) = None
           \<and> int4 (schema_version f)
           \<and> resp = \<lparr>resp_id = ''resposta_'' @ string_of_nat now, formId = fId,
                      resp_schema_version = schema_version f, respostas = rs, calculados = cc,
                      criado_em = agora, resp_is_ativo = True, resp_data_remocao = None,
                      resp_usuario_remocao = None\<rparr>
           \<and> r' = r\<lparr>responses := (responses r)(''resposta_'' @ string_of_nat now \<mapsto> resp)\<rparr>"
proof (cases "findById r fId")
  case None
  with assms show ?thesis by (simp add: enviarResposta_def)
next
  case (Some f)
  note f = Some
  show ?thesis
  proof (cases "is_ativo f \<and> versao_resolvida sv f = schema_version f")
    case False
    with assms f show ?thesis
      by (auto simp: enviarResposta_def versao_resolvida_def Let_def split: if_splits)
  next
    case True
    note ok = True
    show ?thesis
    proof (cases "validarRespostas l (campos f) rs")
      case (Inl e)
      with assms f ok show ?thesis
        by (simp add: enviarResposta_def versao_resolvida_def Let_def)
    next
      case (Inr u)
      note v = Inr
      show ?thesis
      proof (cases "calcularCampos l (filter (\<lambda>c. tipo c = Calculated) (campos f)) rs Map.empty")
        case (Inl e)
        with assms f ok v show ?thesis
          by (simp add: enviarResposta_def versao_resolvida_def Let_def)
      next
        case (Inr cc)
        with assms f ok v have
          "repo_saveResponse r fId
             \<lparr>resp_id = ''resposta_'' @ string_of_nat now, formId = fId,
              resp_schema_version = schema_version f, respostas = rs, calculados = cc,
              criado_em = agora, resp_is_ativo = True, resp_data_remocao = None,
              resp_usuario_remocao = None\<rparr> = (Inr resp, r')"
          by (simp add: enviarResposta_def versao_resolvida_def Let_def)
        then have "responses r (''resposta_'' @ string_of_nat now) = None
           \<and> int4 (schema_version f)
           \<and> resp = \<lparr>resp_id = ''resposta_'' @ string_of_nat now, formId = fId,
                      resp_schema_version = schema_version f, respostas = rs, calculados = cc,
                      criado_em = agora, resp_is_ativo = True, resp_data_remocao = None,
                      resp_usuario_remocao = None\<rparr>
           \<and> r' = r\<lparr>responses := (responses r)(''resposta_'' @ string_of_nat now \<mapsto> resp)\<rparr>"
          by (auto simp: repo_saveResponse_def Let_def split: if_splits)
        with f ok v Inr show ?thesis by auto
      qed
    qed
  qed
qed

text \<open>
  C10 (as amended). The identifier of a response is \<^verbatim>\<open>resposta_\<close> followed by the
  reading of \<^verbatim>\<open>Date.now()\<close>. If a submission succeeds at reading \<open>now1\<close>, the same
  submission repeated at a different reading \<open>now2\<close>, whose identifier is not
  taken, succeeds too; the two responses have different identifiers and both are in
  the repository.
\<close>

theorem submissions_at_distinct_times:
  assumes first: "enviarResposta l r now1 agora1 fId rs sv = (Inr resp1, r1)"
    and clock: "now2 \<noteq> now1"
    and free: "responses r (''resposta_'' @ string_of_nat now2) = None"
  shows "\<exists>resp2 r2. enviarResposta l r1 now2 agora2 fId rs sv = (Inr resp2, r2)
           \<and> resp_id resp1 = ''resposta_'' @ string_of_nat now1
           \<and> resp_id resp2 = ''resposta_'' @ string_of_nat now2
           \<and> resp_id resp1 \<noteq> resp_id resp2
           \<and> responses r2 (resp_id resp1) = Some resp1
           \<and> responses r2 (resp_id resp2) = Some resp2"
proof -
  from enviar_success[OF first] obtain f cc where
    f: "findById r fId = Some f" "is_ativo f" "versao_resolvida sv f = schema_version f"
    and v: "validarRespostas l (campos f) rs = Inr ()"
    and c: "calcularCampos l (filter (\<lambda>c. tipo c = Calculated) (campos f)) rs Map.empty = Inr cc"
    and i4: "int4 (schema_version f)"
    and resp1: "resp1 = \<lparr>resp_id = ''resposta_'' @ string_of_nat now1, formId = fId,
                      resp_schema_version = schema_version f, respostas = rs, calculados = cc,
                      criado_em = agora1, resp_is_ativo = True, resp_data_remocao = None,
                      resp_usuario_remocao = None\<rparr>"
    and r1: "r1 = r\<lparr>responses := (responses r)(''resposta_'' @ string_of_nat now1 \<mapsto> resp1)\<rparr>"
    by blast
  have ne: "''resposta_'' @ string_of_nat now2 \<noteq> ''resposta_'' @ string_of_nat now1"
    using clock string_of_nat_inj by auto
  let ?resp2 = "\<lparr>resp_id = ''resposta_'' @ string_of_nat now2, formId = fId,
                  resp_schema_version = schema_version f, respostas = rs, calculados = cc,
                  criado_em = agora2, resp_is_ativo = True, resp_data_remocao = None,
                  resp_usuario_remocao = None\<rparr>"
  have f1: "findById r1 fId = Some f"
    using f(1) r1 by (simp add: findById_def)
  have sv: "(case sv of None \<Rightarrow> schema_version f
             | Some v \<Rightarrow> if v \<noteq> 0 then v else schema_version f) = schema_version f"
    using f(3) by (simp add: versao_resolvida_def)
  have "enviarResposta l r1 now2 agora2 fId rs sv
          = (Inr ?resp2, r1\<lparr>responses := (responses r1)(''resposta_'' @ string_of_nat now2 \<mapsto> ?resp2)\<rparr>)"
    using f1 f(2) sv v c ne free r1 f(1) i4
    by (simp add: enviarResposta_def repo_saveResponse_def findById_def Let_def)
  moreover have "resp_id resp1 = ''resposta_'' @ string_of_nat now1"
    using resp1 by simp
  ultimately show ?thesis
    using ne r1 by (intro exI[of _ ?resp2] exI) auto
qed

text \<open>C10, as stated, fails when both calls read the same millisecond: the second call
  builds the identifier of the first, the insert is refused, and only one response is
  stored.\<close>

theorem same_clock_counterexample:
  "enviarResposta lib_fixo (repo_com (form_exemplo ''f1'' 1 False [])) 5 6 ''f1'' Map.empty None
     = (Inr (resposta_exemplo 5 6),
        (repo_com (form_exemplo ''f1'' 1 False []))
          \<lparr>responses := [''resposta_5'' \<mapsto> resposta_exemplo 5 6]\<rparr>)
   \<and> enviarResposta lib_fixo
        ((repo_com (form_exemplo ''f1'' 1 False []))
           \<lparr>responses := [''resposta_5'' \<mapsto> resposta_exemplo 5 6]\<rparr>)
        5 7 ''f1'' Map.empty None
     = (Inl PersistenceError,
        (repo_com (form_exemplo ''f1'' 1 False []))
          \<lparr>responses := [''resposta_5'' \<mapsto> resposta_exemplo 5 6]\<rparr>)"
  by (simp add: enviarResposta_def findById_def form_exemplo_def repo_saveResponse_def
      int4_def resposta_exemplo_def repo_com_def Let_def string_of_nat.simps digit_char_def)

theorem submissions_at_distinct_times_witness:
  "enviarResposta lib_fixo (repo_com (form_exemplo ''f1'' 1 False [])) 5 6 ''f1'' Map.empty None
     = (Inr (resposta_exemplo 5 6),
        (repo_com (form_exemplo ''f1'' 1 False []))
          \<lparr>responses := [''resposta_5'' \<mapsto> resposta_exemplo 5 6]\<rparr>)
   \<and> (7::nat) \<noteq> 5
   \<and> responses (repo_com (form_exemplo ''f1'' 1 False [])) (''resposta_'' @ string_of_nat 7) = None
   \<and> (\<exists>resp2 r2.
         enviarResposta lib_fixo
           ((repo_com (form_exemplo ''f1'' 1 False []))
              \<lparr>responses := [''resposta_5'' \<mapsto> resposta_exemplo 5 6]\<rparr>)
           7 8 ''f1'' Map.empty None = (Inr resp2, r2)
         \<and> resp_id (resposta_exemplo 5 6) \<noteq> resp_id resp2
         \<and> responses r2 (resp_id (resposta_exemplo 5 6)) = Some (resposta_exemplo 5 6)
         \<and> responses r2 (resp_id resp2) = Some resp2)"
proof -
  let ?r = "repo_com (form_exemplo ''f1'' 1 False [])"
  let ?r1 = "?r\<lparr>responses := [''resposta_5'' \<mapsto> resposta_exemplo 5 6]\<rparr>"
  have a: "enviarResposta lib_fixo ?r 5 6 ''f1'' Map.empty None = (Inr (resposta_exemplo 5 6), ?r1)"
    by (simp add: enviarResposta_def findById_def form_exemplo_def repo_saveResponse_def
      int4_def resposta_exemplo_def repo_com_def Let_def string_of_nat.simps digit_char_def)
  have b: "(7::nat) \<noteq> 5" by simp
  have c: "responses ?r (''resposta_'' @ string_of_nat 7) = None"
    by (simp add: repo_com_def)
  from submissions_at_distinct_times[OF a b c, of 8]
  have d: "\<exists>resp2 r2.
         enviarResposta lib_fixo ?r1 7 8 ''f1'' Map.empty None = (Inr resp2, r2)
         \<and> resp_id (resposta_exemplo 5 6) \<noteq> resp_id resp2
         \<and> responses r2 (resp_id (resposta_exemplo 5 6)) = Some (resposta_exemplo 5 6)
         \<and> responses r2 (resp_id resp2) = Some resp2"
    by blast
  from a b c d show ?thesis by blast
qed

subsection \<open>Soft deletion and protection\<close>




text \<open>
  The endpoint \<^verbatim>\<open>FormController.softDelete\<close> reads the form before it calls the
  service: for an id that passes \<^verbatim>\<open>idSchema\<close> it answers 403 on a protected form
  and leaves the repository as it was. The service operation itself does not look
  at \<open>protegido\<close>: called directly, it deactivates any stored active form.
\<close>

lemma controller_softDelete_protegido:
  assumes "findById r i = Some f" and "protegido f" and "id_issues i = []"
  shows "controller_softDelete r agora i = (Http403, r)"
  using assms by (simp add: controller_softDelete_def obterFormularioPorId_def)

lemma desativarFormulario_any_active:
  assumes "findById r i = Some f" and "is_ativo f"
  shows "desativarFormulario r agora i usuario
           = (Inr (),
              r\<lparr>forms := (forms r)(i \<mapsto>
                   f\<lparr>is_ativo := False, data_remocao := Some agora,
                     usuario_remocao := Some usuario\<rparr>)\<rparr>)"
  using assms by (simp add: desativarFormulario_def repo_softDelete_def findById_def)

subsection \<open>Order and scope of calculated fields\<close>

lemma validar_saude:
  "validarRespostas l campos_saude respostas_saude = Inr ()"
  "validarRespostas l campos_saude_invertidos respostas_saude = Inr ()"
  by (simp_all add: campos_saude_def campos_saude_invertidos_def respostas_saude_def
      campo_simples_def campo_imc_def campo_classificacao_def validate_def getValidator_def
      baseValidators_def bool_truthy_def applyNumberValidations_def validacoes_of_def
      get_prop_def status_of_def)

lemma calculate_classificacao:
  "calculate l campo_classificacao respostas_saude
     = Inl (DependenciasAusentes ''classificacao'' [''imc''])"
  by (simp add: calculate_def campo_classificacao_def campo_simples_def respostas_saude_def
      has_prop_def object_prototype_names_def)

text \<open>
  C1. The calculated fields are computed in the order of the field list, each from
  the submitted values alone. A health form whose \<open>classificacao\<close> depends on the
  calculated \<open>imc\<close> cannot be answered: with \<open>classificacao\<close> declared first the
  submission fails for every library; with \<open>imc\<close> declared first it fails as well,
  because the value computed for \<open>imc\<close> is not among the values \<open>classificacao\<close> is
  computed from.
\<close>

theorem calculated_on_calculated_fails:
  "enviarResposta l (repo_com (form_exemplo ''f2'' 1 False campos_saude_invertidos))
       now agora ''f2'' respostas_saude None
     = (Inl (DependenciasAusentes ''classificacao'' [''imc'']),
        repo_com (form_exemplo ''f2'' 1 False campos_saude_invertidos))
   \<and> enviarResposta lib_fixo (repo_com (form_exemplo ''f2'' 1 False campos_saude))
       now agora ''f2'' respostas_saude None
     = (Inl (DependenciasAusentes ''classificacao'' [''imc'']),
        repo_com (form_exemplo ''f2'' 1 False campos_saude))
   \<and> isl (fst (enviarResposta l (repo_com (form_exemplo ''f2'' 1 False campos_saude))
                 now agora ''f2'' respostas_saude None))"
proof (intro conjI)
  have f: "findById (repo_com (form_exemplo ''f2'' 1 False cs)) ''f2''
             = Some (form_exemplo ''f2'' 1 False cs)" for cs
    by (simp add: findById_def repo_com_def form_exemplo_def)
  have a: "is_ativo (form_exemplo ''f2'' 1 False cs)"
    and c: "campos (form_exemplo ''f2'' 1 False cs) = cs" for cs
    by (simp_all add: form_exemplo_def)
  have inv: "filter (\<lambda>c. tipo c = Calculated) campos_saude_invertidos
               = [campo_classificacao, campo_imc]"
    and ord: "filter (\<lambda>c. tipo c = Calculated) campos_saude = [campo_imc, campo_classificacao]"
    by (simp_all add: campos_saude_def campos_saude_invertidos_def campo_simples_def
        campo_imc_def campo_classificacao_def)
  show "enviarResposta l (repo_com (form_exemplo ''f2'' 1 False campos_saude_invertidos))
       now agora ''f2'' respostas_saude None
     = (Inl (DependenciasAusentes ''classificacao'' [''imc'']),
        repo_com (form_exemplo ''f2'' 1 False campos_saude_invertidos))"
    by (simp add: enviar_omitted[OF f a] c validar_saude inv calculate_classificacao)
  have imc: "calculate lib_fixo campo_imc respostas_saude = Inr (VNum 1)"
    by (simp add: calculate_def campo_imc_def campo_simples_def respostas_saude_def lib_fixo_def
        has_prop_def)
  show "enviarResposta lib_fixo (repo_com (form_exemplo ''f2'' 1 False campos_saude))
       now agora ''f2'' respostas_saude None
     = (Inl (DependenciasAusentes ''classificacao'' [''imc'']),
        repo_com (form_exemplo ''f2'' 1 False campos_saude))"
    by (simp add: enviar_omitted[OF f a] c validar_saude ord imc calculate_classificacao)
  show "isl (fst (enviarResposta l (repo_com (form_exemplo ''f2'' 1 False campos_saude))
                 now agora ''f2'' respostas_saude None))"
    by (cases "calculate l campo_imc respostas_saude")
       (simp_all add: enviar_omitted[OF f a] c validar_saude ord calculate_classificacao)
qed

text \<open>
  C4. The conditional of a calculated field is not consulted. The conditional
  \<open>sexo=feminino\<close> is false for the submitted values, the required field \<open>gravidez\<close>
  under that conditional is rightly skipped, yet the calculated field \<open>risco\<close> under
  the same conditional is computed and its value is stored with the response.
\<close>

theorem conditional_ignored_for_calculated:
  "avaliarCondicional ''sexo=feminino'' respostas_masculino = Inr False
   \<and> enviarResposta lib_fixo (repo_com (form_exemplo ''f3'' 1 False campos_triagem))
       5 6 ''f3'' respostas_masculino None
     = (Inr \<lparr>resp_id = ''resposta_5'', formId = ''f3'', resp_schema_version = 1,
              respostas = respostas_masculino, calculados = [''risco'' \<mapsto> VNum 1],
              criado_em = 6, resp_is_ativo = True, resp_data_remocao = None,
              resp_usuario_remocao = None\<rparr>,
        (repo_com (form_exemplo ''f3'' 1 False campos_triagem))
          \<lparr>responses := [''resposta_5'' \<mapsto>
             \<lparr>resp_id = ''resposta_5'', formId = ''f3'', resp_schema_version = 1,
              respostas = respostas_masculino, calculados = [''risco'' \<mapsto> VNum 1],
              criado_em = 6, resp_is_ativo = True, resp_data_remocao = None,
              resp_usuario_remocao = None\<rparr>]\<rparr>)"
proof (intro conjI)
  show cond: "avaliarCondicional ''sexo=feminino'' respostas_masculino = Inr False"
    by (simp add: avaliarCondicional_def respostas_masculino_def get_prop_def)
  have f: "findById (repo_com (form_exemplo ''f3'' 1 False campos_triagem)) ''f3''
             = Some (form_exemplo ''f3'' 1 False campos_triagem)"
    by (simp add: findById_def repo_com_def form_exemplo_def)
  have a: "is_ativo (form_exemplo ''f3'' 1 False campos_triagem)"
    and c: "campos (form_exemplo ''f3'' 1 False campos_triagem) = campos_triagem"
    and sv: "schema_version (form_exemplo ''f3'' 1 False campos_triagem) = 1"
    by (simp_all add: form_exemplo_def)
  have sexo: "validate lib_fixo (VStr ''masculino'') (campo_simples ''sexo'' Text) = Inr ()"
    by (simp add: campo_simples_def validate_def getValidator_def baseValidators_def
        bool_truthy_def applyTextValidations_def validacoes_of_def status_of_def Let_def)
  have v: "validarRespostas lib_fixo campos_triagem respostas_masculino = Inr ()"
    using cond sexo
    by (simp add: campos_triagem_def campo_gravidez_def campo_risco_def campo_simples_def
        get_prop_def respostas_masculino_def)
  have k: "calcularCampos lib_fixo (filter (\<lambda>c. tipo c = Calculated) campos_triagem)
             respostas_masculino Map.empty = Inr [''risco'' \<mapsto> VNum 1]"
    by (simp add: campos_triagem_def campo_gravidez_def campo_risco_def campo_simples_def
        calculate_def lib_fixo_def set_prop_def)
  show "enviarResposta lib_fixo (repo_com (form_exemplo ''f3'' 1 False campos_triagem))
       5 6 ''f3'' respostas_masculino None
     = (Inr \<lparr>resp_id = ''resposta_5'', formId = ''f3'', resp_schema_version = 1,
              respostas = respostas_masculino, calculados = [''risco'' \<mapsto> VNum 1],
              criado_em = 6, resp_is_ativo = True, resp_data_remocao = None,
              resp_usuario_remocao = None\<rparr>,
        (repo_com (form_exemplo ''f3'' 1 False campos_triagem))
          \<lparr>responses := [''resposta_5'' \<mapsto>
             \<lparr>resp_id = ''resposta_5'', formId = ''f3'', resp_schema_version = 1,
              respostas = respostas_masculino, calculados = [''risco'' \<mapsto> VNum 1],
              criado_em = 6, resp_is_ativo = True, resp_data_remocao = None,
              resp_usuario_remocao = None\<rparr>]\<rparr>)"
    unfolding enviar_omitted[OF f a] c sv
    by (simp add: v k repo_saveResponse_def int4_def repo_com_def form_exemplo_def
        Let_def string_of_nat.simps digit_char_def)
qed

section \<open>Correctness of the cycle detection\<close>

lemma neighbours_edges: "m \<in> set (neighbours g n) \<longleftrightarrow> (n, m) \<in> graph_edges g"
  by (cases "map_get g n") (auto simp: neighbours_def graph_edges_def)

lemma set_delete_add: "x \<notin> set s \<Longrightarrow> set_delete (set_add s x) x = s"
  by (auto simp: set_delete_def set_add_def filter_id_conv)

lemma set_add_new: "x \<notin> set s \<Longrightarrow> set_add s x = s @ [x]"
  by (simp add: set_add_def)

lemma dfs_frame:
  "detectCycleUtil g node st = (None, st') \<Longrightarrow>
     snd st' = snd st \<and> set (fst st) \<subseteq> set (fst st') \<and> node \<in> set (fst st')
     \<and> node \<notin> set (snd st)"
  "detectCycleNeighbors g ns st = (None, st') \<Longrightarrow>
     snd st' = snd st \<and> set (fst st) \<subseteq> set (fst st')"
proof (induction g node st and g ns st arbitrary: st' and st'
    rule: detectCycleUtil_detectCycleNeighbors.induct)
  case (1 g node visited recursionStack)
  from "1.prems" have ns: "\<not> set_has recursionStack node"
    by (auto simp: Let_def split: if_splits)
  show ?case
  proof (cases "set_has visited node")
    case True
    with "1.prems" ns show ?thesis by (auto simp: set_has_def)
  next
    case False
    with "1.prems" ns obtain v1 s1 where
      r: "detectCycleNeighbors g (case map_get g node of Some ns \<Rightarrow> ns | None \<Rightarrow> [])
            (set_add visited node, set_add recursionStack node) = (None, (v1, s1))"
      and s: "st' = (v1, set_delete s1 node)"
      by (auto split: prod.splits option.splits)
    from "1.IH"[OF ns False r] have "s1 = set_add recursionStack node"
      and "set (set_add visited node) \<subseteq> set v1" by simp_all
    with s ns show ?thesis
      by (auto simp: set_delete_add set_has_def set_set_add)
  qed
next
  case (2 g st)
  then show ?case by simp
next
  case (3 g neighbor rest st)
  from "3.prems" obtain st1 where
    a: "detectCycleUtil g neighbor st = (None, st1)"
    and b: "detectCycleNeighbors g rest st1 = (None, st')"
    by (auto split: prod.splits option.splits)
  from "3.IH"(1)[OF a] "3.IH"(2)[OF a[symmetric] refl b] show ?case by auto
qed

lemma indexOf_found:
  "x \<in> set xs \<Longrightarrow> indexOf xs x = int (length (takeWhile (\<lambda>y. y \<noteq> x) xs))"
  by (induction xs) (auto simp: Let_def)

lemma slice_indexOf:
  "x \<in> set xs \<Longrightarrow> slice xs (indexOf xs x) = dropWhile (\<lambda>y. y \<noteq> x) xs"
  by (simp add: indexOf_found slice_def dropWhile_eq_drop)

lemma is_walk_snoc:
  "is_walk E (xs @ [y]) = (is_walk E xs \<and> (xs \<noteq> [] \<longrightarrow> (last xs, y) \<in> E))"
  by (induction E xs rule: is_walk.induct) auto

lemma is_walk_suffix: "is_walk E (xs @ ys) \<Longrightarrow> is_walk E ys"
proof (induction E xs rule: is_walk.induct)
  case (1 E)
  then show ?case by simp
next
  case (2 E x)
  then show ?case by (cases ys) auto
next
  case (3 E x y xs)
  then show ?case by simp
qed

lemma walk_trancl:
  "is_walk E xs \<Longrightarrow> 2 \<le> length xs \<Longrightarrow> (hd xs, last xs) \<in> E\<^sup>+"
proof (induction E xs rule: is_walk.induct)
  case (1 E)
  then show ?case by simp
next
  case (2 E x)
  then show ?case by simp
next
  case (3 E x y xs)
  show ?case
  proof (cases xs)
    case Nil
    with "3.prems" show ?thesis by auto
  next
    case (Cons z zs)
    with "3.prems" "3.IH" have "(y, last (y # xs)) \<in> E\<^sup>+" by simp
    moreover from "3.prems" have "(x, y) \<in> E" by simp
    ultimately show ?thesis by (simp add: trancl_into_trancl2 Cons)
  qed
qed

lemma cycle_from_stack:
  assumes "node \<in> set stk" and "is_walk E (stk @ [node])"
  shows "closed_walk E (slice stk (indexOf stk node) @ [node])"
proof -
  let ?d = "dropWhile (\<lambda>y. y \<noteq> node) stk"
  have ne: "?d \<noteq> []" using assms(1) by (simp add: dropWhile_eq_Nil_conv)
  then have hd: "hd ?d = node" using hd_dropWhile[of "\<lambda>y. y \<noteq> node" stk] by auto
  have "stk @ [node] = takeWhile (\<lambda>y. y \<noteq> node) stk @ (?d @ [node])" by simp
  with assms(2) have "is_walk E (?d @ [node])" using is_walk_suffix by metis
  moreover have "2 \<le> length (?d @ [node])" using ne by (cases ?d) auto
  moreover have "hd (?d @ [node]) = last (?d @ [node])" using ne hd by simp
  ultimately show ?thesis
    by (simp add: closed_walk_def slice_indexOf[OF assms(1)])
qed

lemma dfs_sound:
  "detectCycleUtil g node st = (Some c, st') \<Longrightarrow>
     is_walk (graph_edges g) (snd st @ [node]) \<Longrightarrow> closed_walk (graph_edges g) c"
  "detectCycleNeighbors g ns st = (Some c, st') \<Longrightarrow>
     is_walk (graph_edges g) (snd st) \<Longrightarrow> snd st \<noteq> [] \<Longrightarrow>
     set ns \<subseteq> set (neighbours g (last (snd st))) \<Longrightarrow> closed_walk (graph_edges g) c"
proof (induction g node st and g ns st arbitrary: c st' and c st'
    rule: detectCycleUtil_detectCycleNeighbors.induct)
  case (1 g node visited recursionStack)
  show ?case
  proof (cases "set_has recursionStack node")
    case True
    with "1.prems"(1) have "c = slice recursionStack (indexOf recursionStack node) @ [node]"
      by (simp add: Let_def)
    with True "1.prems"(2) show ?thesis
      by (simp add: cycle_from_stack set_has_def)
  next
    case False
    note ns = False
    show ?thesis
    proof (cases "set_has visited node")
      case True
      with ns "1.prems"(1) show ?thesis by simp
    next
      case False
      with ns "1.prems"(1) have
        r: "detectCycleNeighbors g (case map_get g node of Some ns \<Rightarrow> ns | None \<Rightarrow> [])
              (set_add visited node, set_add recursionStack node) = (Some c, st')"
        by (auto split: prod.splits option.splits)
      from ns have sa: "set_add recursionStack node = recursionStack @ [node]"
        by (simp add: set_add_new set_has_def)
      show ?thesis
        using "1.IH"[OF ns False r] "1.prems"(2)
        by (simp add: sa neighbours_def)
    qed
  qed
next
  case (2 g st)
  then show ?case by simp
next
  case (3 g neighbor rest st)
  have e: "(last (snd st), neighbor) \<in> graph_edges g"
    using "3.prems"(4) by (simp add: neighbours_edges)
  obtain res st1 where p: "detectCycleUtil g neighbor st = (res, st1)"
    by (cases "detectCycleUtil g neighbor st")
  show ?case
  proof (cases res)
    case (Some c1)
    with p "3.prems"(1) have "c1 = c" by simp
    with Some p "3.IH"(1)[of c st1] "3.prems"(2,3) e show ?thesis
      by (simp add: is_walk_snoc)
  next
    case None
    with p "3.prems"(1) have b: "detectCycleNeighbors g rest st1 = (Some c, st')"
      by simp
    from dfs_frame(1)[of g neighbor st st1] p None have "snd st1 = snd st" by simp
    with "3.IH"(2)[OF p[symmetric] None b] "3.prems"(2,3,4) show ?thesis by simp
  qed
qed

lemma closed_reach:
  assumes "E `` B \<subseteq> B" and "x \<in> B" and "(x, y) \<in> E\<^sup>*"
  shows "y \<in> B"
  using assms(3,2,1) by (induction rule: rtrancl_induct) auto

lemma finish_node:
  assumes inv: "E `` B \<subseteq> B" "\<forall>x \<in> B. (x, x) \<notin> E\<^sup>+"
    and succ: "E `` {n} \<subseteq> B" and n: "n \<notin> B"
  shows "E `` insert n B \<subseteq> insert n B \<and> (\<forall>x \<in> insert n B. (x, x) \<notin> E\<^sup>+)"
proof (intro conjI ballI)
  show "E `` insert n B \<subseteq> insert n B" using inv(1) succ by auto
next
  fix x assume x: "x \<in> insert n B"
  show "(x, x) \<notin> E\<^sup>+"
  proof (cases "x = n")
    case False
    with x inv(2) show ?thesis by auto
  next
    case True
    show ?thesis
    proof
      assume "(x, x) \<in> E\<^sup>+"
      with True obtain m where m: "(n, m) \<in> E" "(m, n) \<in> E\<^sup>*"
        by (auto dest: tranclD)
      from m(1) succ have "m \<in> B" by auto
      from closed_reach[OF inv(1) this m(2)] n show False by simp
    qed
  qed
qed

lemma dfs_complete:
  "detectCycleUtil g node st = (None, st') \<Longrightarrow> dfs_inv g st \<Longrightarrow>
     dfs_inv g st' \<and> node \<in> finished st'"
  "detectCycleNeighbors g ns st = (None, st') \<Longrightarrow> dfs_inv g st \<Longrightarrow>
     dfs_inv g st' \<and> set ns \<subseteq> finished st'"
proof (induction g node st and g ns st arbitrary: st' and st'
    rule: detectCycleUtil_detectCycleNeighbors.induct)
  case (1 g node visited recursionStack)
  from "1.prems"(1) have ns: "\<not> set_has recursionStack node"
    by (auto simp: Let_def split: if_splits)
  show ?case
  proof (cases "set_has visited node")
    case True
    with "1.prems" ns show ?thesis by (auto simp: set_has_def finished_def)
  next
    case False
    with "1.prems"(1) ns obtain v1 s1 where
      r: "detectCycleNeighbors g (case map_get g node of Some ns \<Rightarrow> ns | None \<Rightarrow> [])
            (set_add visited node, set_add recursionStack node) = (None, (v1, s1))"
      and s: "st' = (v1, set_delete s1 node)"
      by (auto split: prod.splits option.splits)
    let ?st0 = "(set_add visited node, set_add recursionStack node)"
    from ns False have f0: "finished ?st0 = finished (visited, recursionStack)"
      by (auto simp: finished_def set_set_add set_has_def)
    with "1.prems"(2) have inv0: "dfs_inv g ?st0" by (simp add: dfs_inv_def)
    from "1.IH"[OF ns False r inv0] have inv1: "dfs_inv g (v1, s1)"
      and nb: "set (neighbours g node) \<subseteq> finished (v1, s1)"
      by (simp_all add: neighbours_def)
    from dfs_frame(2)[OF r] have s1: "s1 = set_add recursionStack node"
      and v1: "set (set_add visited node) \<subseteq> set v1" by simp_all
    from ns s1 s have st': "st' = (v1, recursionStack)"
      by (simp add: set_delete_add set_has_def)
    have fin: "finished st' = insert node (finished (v1, s1))"
      using ns v1 by (auto simp: st' s1 finished_def set_set_add set_has_def)
    have nin: "node \<notin> finished (v1, s1)"
      by (simp add: finished_def s1 set_set_add)
    have succ: "graph_edges g `` {node} \<subseteq> finished (v1, s1)"
      using nb by (auto simp: neighbours_edges)
    from finish_node[OF _ _ succ nin] inv1 show ?thesis
      by (simp add: dfs_inv_def fin)
  qed
next
  case (2 g st)
  then show ?case by simp
next
  case (3 g neighbor rest st)
  from "3.prems"(1) obtain st1 where
    a: "detectCycleUtil g neighbor st = (None, st1)"
    and b: "detectCycleNeighbors g rest st1 = (None, st')"
    by (auto split: prod.splits option.splits)
  from "3.IH"(1)[OF a "3.prems"(2)] have i1: "dfs_inv g st1" and n1: "neighbor \<in> finished st1"
    by simp_all
  from "3.IH"(2)[OF a[symmetric] refl b i1] have i2: "dfs_inv g st'"
    and r2: "set rest \<subseteq> finished st'" by simp_all
  from dfs_frame(2)[OF b] have "finished st1 \<subseteq> finished st'"
    by (auto simp: finished_def)
  with n1 i2 r2 show ?case by auto
qed

lemma hasCycle_loop_sound:
  "hasCycle_loop g ks st = Some c \<Longrightarrow> snd st = [] \<Longrightarrow> closed_walk (graph_edges g) c"
proof (induction ks arbitrary: st)
  case Nil
  then show ?case by simp
next
  case (Cons k ks)
  obtain res st1 where p: "detectCycleUtil g k st = (res, st1)"
    by (cases "detectCycleUtil g k st")
  show ?case
  proof (cases res)
    case (Some c1)
    with p Cons.prems have "detectCycleUtil g k st = (Some c, st1)" by simp
    from dfs_sound(1)[OF this] Cons.prems(2) show ?thesis by simp
  next
    case None
    with p Cons.prems(1) have "hasCycle_loop g ks st1 = Some c" by simp
    moreover from dfs_frame(1)[of g k st st1] p None Cons.prems(2) have "snd st1 = []" by simp
    ultimately show ?thesis by (rule Cons.IH)
  qed
qed

lemma hasCycle_loop_complete:
  "hasCycle_loop g ks st = None \<Longrightarrow> dfs_inv g st \<Longrightarrow>
     \<exists>st'. dfs_inv g st' \<and> finished st \<union> set ks \<subseteq> finished st'"
proof (induction ks arbitrary: st)
  case Nil
  then show ?case by (intro exI[of _ st]) simp
next
  case (Cons k ks)
  from Cons.prems(1) obtain st1 where
    a: "detectCycleUtil g k st = (None, st1)" and b: "hasCycle_loop g ks st1 = None"
    by (auto split: prod.splits option.splits)
  from dfs_complete(1)[OF a Cons.prems(2)] have i1: "dfs_inv g st1" and k1: "k \<in> finished st1"
    by simp_all
  from dfs_frame(1)[OF a] have m: "finished st \<subseteq> finished st1"
    by (auto simp: finished_def)
  from Cons.IH[OF b i1] obtain st' where "dfs_inv g st'" "finished st1 \<union> set ks \<subseteq> finished st'"
    by blast
  with k1 m show ?case by (intro exI[of _ st']) auto
qed

lemma hasCycle_None_acyclic:
  assumes "hasCycle g = None"
  shows "\<not> cyclic g"
proof
  assume "cyclic g"
  then obtain n where n: "(n, n) \<in> (graph_edges g)\<^sup>+" by (auto simp: cyclic_def)
  then obtain m where "(n, m) \<in> graph_edges g" by (auto dest: tranclD)
  then have key: "n \<in> set (map_keys g)"
    by (auto simp: graph_edges_def map_get_def map_keys_def dest: map_of_SomeD
        intro!: image_eqI[where x="(n, _)"])
  have "dfs_inv g ([], [])" by (simp add: dfs_inv_def finished_def)
  from hasCycle_loop_complete[OF assms[unfolded hasCycle_def] this]
  obtain st' where "dfs_inv g st'" "set (map_keys g) \<subseteq> finished st'" by auto
  with key n show False by (auto simp: dfs_inv_def)
qed

lemma hasCycle_Some_cyclic:
  assumes "hasCycle g = Some c"
  shows "closed_walk (graph_edges g) c \<and> cyclic g"
proof -
  from hasCycle_loop_sound[OF assms[unfolded hasCycle_def]]
  have w: "closed_walk (graph_edges g) c" by simp
  then have "is_walk (graph_edges g) c" "2 \<le> length c" "hd c = last c"
    by (simp_all add: closed_walk_def)
  from walk_trancl[OF this(1,2)] this(3) have "(hd c, hd c) \<in> (graph_edges g)\<^sup>+"
    by simp
  with w show ?thesis by (auto simp: cyclic_def)
qed

text \<open>
  C2. For every graph built by \<^verbatim>\<open>addNode\<close> and \<^verbatim>\<open>addEdge\<close> calls, \<^verbatim>\<open>hasCycle\<close> returns
  \<^verbatim>\<open>null\<close> exactly when the graph has no cycle. Whatever it returns otherwise is
  non-empty, starts and ends with the same node, and is a walk along the edges of
  the graph; and a cyclic graph always gets such an answer.
\<close>

theorem hasCycle_correct:
  assumes "build_graph [] ops = Inr g"
  shows "((hasCycle g = None) = (\<not> cyclic g))
       \<and> (\<forall>c. hasCycle g = Some c \<longrightarrow>
             c \<noteq> [] \<and> hd c = last c \<and> is_walk (graph_edges g) c \<and> 2 \<le> length c)
       \<and> (cyclic g \<longrightarrow> (\<exists>c. hasCycle g = Some c \<and> c \<noteq> [] \<and> hd c = last c))"
proof -
  have a: "hasCycle g = None \<Longrightarrow> \<not> cyclic g" by (rule hasCycle_None_acyclic)
  have b: "closed_walk (graph_edges g) c \<and> cyclic g" if "hasCycle g = Some c" for c
    using that by (rule hasCycle_Some_cyclic)
  have c: "c \<noteq> []" if "closed_walk (graph_edges g) c" for c
    using that by (auto simp: closed_walk_def)
  have p1: "(hasCycle g = None) = (\<not> cyclic g)"
    using a b by (cases "hasCycle g") auto
  have p2: "\<forall>c. hasCycle g = Some c \<longrightarrow>
             c \<noteq> [] \<and> hd c = last c \<and> is_walk (graph_edges g) c \<and> 2 \<le> length c"
    using b c by (auto simp: closed_walk_def)
  have p3: "cyclic g \<longrightarrow> (\<exists>c. hasCycle g = Some c \<and> c \<noteq> [] \<and> hd c = last c)"
    using p1 p2 by (cases "hasCycle g") auto
  from p1 p2 p3 show ?thesis by blast
qed

theorem hasCycle_correct_witness:
  "build_graph [] [AddNode ''a'', AddNode ''b'', AddEdge ''a'' ''b'', AddEdge ''b'' ''a'']
     = Inr [(''a'', [''b'']), (''b'', [''a''])]
   \<and> hasCycle [(''a'', [''b'']), (''b'', [''a''])] = Some [''a'', ''b'', ''a'']
   \<and> cyclic [(''a'', [''b'']), (''b'', [''a''])]
   \<and> build_graph [] [AddNode ''a'', AddNode ''b'', AddEdge ''a'' ''b'']
     = Inr [(''a'', [''b'']), (''b'', [])]
   \<and> hasCycle [(''a'', [''b'']), (''b'', [])] = None
   \<and> \<not> cyclic [(''a'', [''b'']), (''b'', [])]"
proof -
  have b1: "build_graph [] [AddNode ''a'', AddNode ''b'', AddEdge ''a'' ''b'', AddEdge ''b'' ''a'']
     = Inr [(''a'', [''b'']), (''b'', [''a''])]"
    by (simp add: addNode_def addEdge_def map_has_def map_get_def)
  have b2: "build_graph [] [AddNode ''a'', AddNode ''b'', AddEdge ''a'' ''b'']
     = Inr [(''a'', [''b'']), (''b'', [])]"
    by (simp add: addNode_def addEdge_def map_has_def map_get_def)
  have h1: "hasCycle [(''a'', [''b'']), (''b'', [''a''])] = Some [''a'', ''b'', ''a'']"
    by (simp add: hasCycle_def map_keys_def set_has_def set_add_def set_delete_def
        map_get_def slice_def Let_def)
  have h2: "hasCycle [(''a'', [''b'']), (''b'', [])] = None"
    by (simp add: hasCycle_def map_keys_def set_has_def set_add_def set_delete_def
        map_get_def slice_def Let_def)
  from hasCycle_correct[OF b1] h1 have c1: "cyclic [(''a'', [''b'']), (''b'', [''a''])]"
    by simp
  from hasCycle_correct[OF b2] h2 have c2: "\<not> cyclic [(''a'', [''b'']), (''b'', [])]"
    by simp
  from b1 b2 h1 h2 c1 c2 show ?thesis by blast
qed

section \<open>The cycle check of the form service\<close>

text \<open>
  \<^verbatim>\<open>verificarDependenciasCirculares\<close> is a second traversal, written inside the
  service; it descends only into nodes not yet visited and throws on meeting a node
  of the recursion stack. The same invariant carries its proof.
\<close>

lemma detectar_frame:
  "detectarCiclo g no st = Inr st' \<Longrightarrow> set (snd st) \<subseteq> set (fst st) \<Longrightarrow>
     no \<notin> set (fst st) \<Longrightarrow>
     snd st' = snd st \<and> insert no (set (fst st)) \<subseteq> set (fst st')"
  "detectarCicloVizinhos g ns st = Inr st' \<Longrightarrow> set (snd st) \<subseteq> set (fst st) \<Longrightarrow>
     snd st' = snd st \<and> set (fst st) \<subseteq> set (fst st')"
proof (induction g no st and g ns st arbitrary: st' and st'
    rule: detectarCiclo_detectarCicloVizinhos.induct)
  case (1 grafo no visitados pilhaRecursao)
  from "1.prems"(1) obtain v1 p1 where
    r: "detectarCicloVizinhos grafo (case map_get grafo no of Some ns \<Rightarrow> ns | None \<Rightarrow> [])
          (set_add visitados no, set_add pilhaRecursao no) = Inr (v1, p1)"
    and s: "st' = (v1, set_delete p1 no)"
    by (auto split: sum.splits prod.splits)
  from "1.prems"(2) have pre: "set (snd (set_add visitados no, set_add pilhaRecursao no))
      \<subseteq> set (fst (set_add visitados no, set_add pilhaRecursao no))"
    by (auto simp: set_set_add)
  from "1.IH"[OF r pre] have "p1 = set_add pilhaRecursao no"
    and "set (set_add visitados no) \<subseteq> set v1" by simp_all
  moreover from "1.prems"(2,3) have "no \<notin> set pilhaRecursao" by auto
  ultimately show ?case using s
    by (auto simp: set_delete_add set_set_add)
next
  case (2 grafo st)
  then show ?case by simp
next
  case (3 grafo vizinho rest visitados pilhaRecursao)
  show ?case
  proof (cases "set_has visitados vizinho")
    case False
    with "3.prems"(1) obtain st1 where
      a: "detectarCiclo grafo vizinho (visitados, pilhaRecursao) = Inr st1"
      and b: "detectarCicloVizinhos grafo rest st1 = Inr st'"
      by (auto split: sum.splits)
    from False have nv: "vizinho \<notin> set (fst (visitados, pilhaRecursao))"
      by (simp add: set_has_def)
    from "3.IH"(1)[OF False a "3.prems"(2) nv]
    have f1: "snd st1 = pilhaRecursao" "insert vizinho (set visitados) \<subseteq> set (fst st1)"
      by simp_all
    with "3.prems"(2) have pre1: "set (snd st1) \<subseteq> set (fst st1)" by auto
    from "3.IH"(2)[OF False a b pre1] f1 show ?thesis by auto
  next
    case True
    with "3.prems"(1) have np: "\<not> set_has pilhaRecursao vizinho"
      and b: "detectarCicloVizinhos grafo rest (visitados, pilhaRecursao) = Inr st'"
      by (auto split: if_splits)
    from "3.IH"(3)[OF _ np b "3.prems"(2)] True show ?thesis by simp
  qed
qed

text \<open>An error of the traversal names a node that lies on a cycle.\<close>

lemma detectar_sound:
  "detectarCiclo g no st = Inl e \<Longrightarrow> set (snd st) \<subseteq> set (fst st) \<Longrightarrow>
     no \<notin> set (fst st) \<Longrightarrow> \<forall>s \<in> set (snd st). (s, no) \<in> (graph_edges g)\<^sup>+ \<Longrightarrow>
     \<exists>v. e = DependenciaCircular v \<and> (v, v) \<in> (graph_edges g)\<^sup>+"
  "detectarCicloVizinhos g ns st = Inl e \<Longrightarrow> set (snd st) \<subseteq> set (fst st) \<Longrightarrow>
     \<forall>s \<in> set (snd st). (s, n) \<in> (graph_edges g)\<^sup>* \<Longrightarrow>
     set ns \<subseteq> graph_edges g `` {n} \<Longrightarrow>
     \<exists>v. e = DependenciaCircular v \<and> (v, v) \<in> (graph_edges g)\<^sup>+"
proof (induction g no st and g ns st arbitrary: e and e n
    rule: detectarCiclo_detectarCicloVizinhos.induct)
  case (1 grafo no visitados pilhaRecursao)
  from "1.prems"(1) have
    r: "detectarCicloVizinhos grafo (case map_get grafo no of Some ns \<Rightarrow> ns | None \<Rightarrow> [])
          (set_add visitados no, set_add pilhaRecursao no) = Inl e"
    by (auto split: sum.splits prod.splits)
  have pre: "set (snd (set_add visitados no, set_add pilhaRecursao no))
      \<subseteq> set (fst (set_add visitados no, set_add pilhaRecursao no))"
    using "1.prems"(2) by (auto simp: set_set_add)
  have reach: "\<forall>s \<in> set (snd (set_add visitados no, set_add pilhaRecursao no)).
      (s, no) \<in> (graph_edges grafo)\<^sup>*"
    using "1.prems"(4) by (auto simp: set_set_add)
  have succ: "set (case map_get grafo no of Some ns \<Rightarrow> ns | None \<Rightarrow> [])
      \<subseteq> graph_edges grafo `` {no}"
    using neighbours_edges[of _ grafo no] by (auto simp: neighbours_def)
  from "1.IH"[OF r pre reach succ] show ?case .
next
  case (2 grafo st)
  then show ?case by simp
next
  case (3 grafo vizinho rest visitados pilhaRecursao)
  from "3.prems"(4) have edge: "(n, vizinho) \<in> graph_edges grafo" by simp
  show ?case
  proof (cases "set_has visitados vizinho")
    case False
    then have nv: "vizinho \<notin> set (fst (visitados, pilhaRecursao))"
      by (simp add: set_has_def)
    have reach1: "\<forall>s \<in> set (snd (visitados, pilhaRecursao)).
        (s, vizinho) \<in> (graph_edges grafo)\<^sup>+"
      using "3.prems"(3) edge by (auto intro: rtrancl_into_trancl1)
    show ?thesis
    proof (cases "detectarCiclo grafo vizinho (visitados, pilhaRecursao)")
      case (Inl e1)
      with False "3.prems"(1) have "e1 = e" by simp
      with Inl "3.IH"(1)[OF False _ "3.prems"(2) nv reach1] show ?thesis by simp
    next
      case (Inr st1)
      with False "3.prems"(1) have b: "detectarCicloVizinhos grafo rest st1 = Inl e" by simp
      from detectar_frame(1)[OF Inr "3.prems"(2) nv]
      have f1: "snd st1 = pilhaRecursao" "insert vizinho (set visitados) \<subseteq> set (fst st1)"
        by simp_all
      with "3.prems"(2) have pre1: "set (snd st1) \<subseteq> set (fst st1)" by auto
      from "3.prems"(3) f1 have reach2: "\<forall>s \<in> set (snd st1). (s, n) \<in> (graph_edges grafo)\<^sup>*"
        by simp
      from "3.prems"(4) have rest: "set rest \<subseteq> graph_edges grafo `` {n}" by simp
      from "3.IH"(2)[OF False Inr b pre1 reach2 rest] show ?thesis .
    qed
  next
    case True
    note vis = True
    show ?thesis
    proof (cases "set_has pilhaRecursao vizinho")
      case True
      with vis "3.prems"(1) have e: "e = DependenciaCircular vizinho" by simp
      from True "3.prems"(3) have "(vizinho, n) \<in> (graph_edges grafo)\<^sup>*"
        by (simp add: set_has_def)
      with edge have "(vizinho, vizinho) \<in> (graph_edges grafo)\<^sup>+"
        by (auto intro: rtrancl_into_trancl1)
      with e show ?thesis by simp
    next
      case False
      with vis "3.prems"(1) have
        b: "detectarCicloVizinhos grafo rest (visitados, pilhaRecursao) = Inl e" by simp
      from "3.prems"(4) have rest: "set rest \<subseteq> graph_edges grafo `` {n}" by simp
      from "3.IH"(3)[OF _ False b "3.prems"(2,3) rest] vis show ?thesis by simp
    qed
  qed
qed

lemma detectar_complete:
  "detectarCiclo g no st = Inr st' \<Longrightarrow> set (snd st) \<subseteq> set (fst st) \<Longrightarrow>
     no \<notin> set (fst st) \<Longrightarrow> dfs_inv g st \<Longrightarrow> dfs_inv g st' \<and> no \<in> finished st'"
  "detectarCicloVizinhos g ns st = Inr st' \<Longrightarrow> set (snd st) \<subseteq> set (fst st) \<Longrightarrow>
     dfs_inv g st \<Longrightarrow> dfs_inv g st' \<and> set ns \<subseteq> finished st'"
proof (induction g no st and g ns st arbitrary: st' and st'
    rule: detectarCiclo_detectarCicloVizinhos.induct)
  case (1 grafo no visitados pilhaRecursao)
  from "1.prems"(1) obtain v1 p1 where
    r: "detectarCicloVizinhos grafo (case map_get grafo no of Some ns \<Rightarrow> ns | None \<Rightarrow> [])
          (set_add visitados no, set_add pilhaRecursao no) = Inr (v1, p1)"
    and s: "st' = (v1, set_delete p1 no)"
    by (auto split: sum.splits prod.splits)
  let ?st0 = "(set_add visitados no, set_add pilhaRecursao no)"
  from "1.prems"(2,3) have np: "no \<notin> set pilhaRecursao" by auto
  have pre: "set (snd ?st0) \<subseteq> set (fst ?st0)"
    using "1.prems"(2) by (auto simp: set_set_add)
  from "1.prems"(3) np have f0: "finished ?st0 = finished (visitados, pilhaRecursao)"
    by (auto simp: finished_def set_set_add)
  with "1.prems"(4) have inv0: "dfs_inv grafo ?st0" by (simp add: dfs_inv_def)
  from "1.IH"[OF r pre inv0] have inv1: "dfs_inv grafo (v1, p1)"
    and nb: "set (neighbours grafo no) \<subseteq> finished (v1, p1)"
    by (simp_all add: neighbours_def)
  from detectar_frame(2)[OF r pre] have p1: "p1 = set_add pilhaRecursao no"
    and v1: "set (set_add visitados no) \<subseteq> set v1" by simp_all
  from np p1 s have st': "st' = (v1, pilhaRecursao)"
    by (simp add: set_delete_add)
  have fin: "finished st' = insert no (finished (v1, p1))"
    using np v1 by (auto simp: st' p1 finished_def set_set_add)
  have nin: "no \<notin> finished (v1, p1)"
    by (simp add: finished_def p1 set_set_add)
  have succ: "graph_edges grafo `` {no} \<subseteq> finished (v1, p1)"
    using nb by (auto simp: neighbours_edges)
  from finish_node[OF _ _ succ nin] inv1 show ?case
    by (simp add: dfs_inv_def fin)
next
  case (2 grafo st)
  then show ?case by simp
next
  case (3 grafo vizinho rest visitados pilhaRecursao)
  show ?case
  proof (cases "set_has visitados vizinho")
    case False
    with "3.prems"(1) obtain st1 where
      a: "detectarCiclo grafo vizinho (visitados, pilhaRecursao) = Inr st1"
      and b: "detectarCicloVizinhos grafo rest st1 = Inr st'"
      by (auto split: sum.splits)
    from False have nv: "vizinho \<notin> set (fst (visitados, pilhaRecursao))"
      by (simp add: set_has_def)
    from detectar_frame(1)[OF a "3.prems"(2) nv]
    have f1: "snd st1 = pilhaRecursao" "insert vizinho (set visitados) \<subseteq> set (fst st1)"
      by simp_all
    with "3.prems"(2) have pre1: "set (snd st1) \<subseteq> set (fst st1)" by auto
    from "3.IH"(1)[OF False a "3.prems"(2) nv "3.prems"(3)]
    have i1: "dfs_inv grafo st1" and n1: "vizinho \<in> finished st1" by simp_all
    from "3.IH"(2)[OF False a b pre1 i1] have i2: "dfs_inv grafo st'"
      and r2: "set rest \<subseteq> finished st'" by simp_all
    from detectar_frame(2)[OF b pre1] have "finished st1 \<subseteq> finished st'"
      by (auto simp: finished_def)
    with n1 i2 r2 show ?thesis by auto
  next
    case True
    with "3.prems"(1) have np: "\<not> set_has pilhaRecursao vizinho"
      and b: "detectarCicloVizinhos grafo rest (visitados, pilhaRecursao) = Inr st'"
      by (auto split: if_splits)
    from True np have n0: "vizinho \<in> finished (visitados, pilhaRecursao)"
      by (simp add: finished_def set_has_def)
    from "3.IH"(3)[OF _ np b "3.prems"(2,3)] True have i2: "dfs_inv grafo st'"
      and r2: "set rest \<subseteq> finished st'" by simp_all
    from detectar_frame(2)[OF b "3.prems"(2)]
    have "finished (visitados, pilhaRecursao) \<subseteq> finished st'"
      by (auto simp: finished_def)
    with n0 i2 r2 show ?thesis by auto
  qed
qed


lemma verificar_nos_sound:
  "verificar_nos g ks st = Inl e \<Longrightarrow> snd st = [] \<Longrightarrow>
     \<exists>v. e = DependenciaCircular v \<and> (v, v) \<in> (graph_edges g)\<^sup>+"
proof (induction g ks st rule: verificar_nos.induct)
  case (1 grafo st)
  then show ?case by simp
next
  case (2 grafo no rest visitados pilhaRecursao)
  from "2.prems"(2) have p: "pilhaRecursao = []" by simp
  show ?case
  proof (cases "set_has visitados no")
    case True
    with "2.prems" "2.IH"(2) show ?thesis by simp
  next
    case False
    then have nv: "no \<notin> set (fst (visitados, pilhaRecursao))" by (simp add: set_has_def)
    show ?thesis
    proof (cases "detectarCiclo grafo no (visitados, pilhaRecursao)")
      case (Inl e1)
      with False "2.prems"(1) have "e1 = e" by simp
      with Inl detectar_sound(1)[of grafo no "(visitados, pilhaRecursao)" e] nv p
      show ?thesis by simp
    next
      case (Inr st1)
      with False "2.prems"(1) have b: "verificar_nos grafo rest st1 = Inl e" by simp
      from detectar_frame(1)[OF Inr _ nv] p have "snd st1 = []" by simp
      from "2.IH"(1)[OF False Inr b this] show ?thesis .
    qed
  qed
qed

lemma verificar_nos_complete:
  "verificar_nos g ks st = Inr st' \<Longrightarrow> snd st = [] \<Longrightarrow> dfs_inv g st \<Longrightarrow>
     dfs_inv g st' \<and> finished st \<union> set ks \<subseteq> finished st'"
proof (induction g ks st rule: verificar_nos.induct)
  case (1 grafo st)
  then show ?case by simp
next
  case (2 grafo no rest visitados pilhaRecursao)
  from "2.prems"(2) have p: "pilhaRecursao = []" by simp
  show ?case
  proof (cases "set_has visitados no")
    case True
    with "2.prems" "2.IH"(2) have "dfs_inv grafo st'"
      and "finished (visitados, pilhaRecursao) \<union> set rest \<subseteq> finished st'" by simp_all
    moreover from True p have "no \<in> finished (visitados, pilhaRecursao)"
      by (simp add: finished_def set_has_def)
    ultimately show ?thesis by auto
  next
    case False
    then have nv: "no \<notin> set (fst (visitados, pilhaRecursao))" by (simp add: set_has_def)
    from False "2.prems"(1) obtain st1 where
      a: "detectarCiclo grafo no (visitados, pilhaRecursao) = Inr st1"
      and b: "verificar_nos grafo rest st1 = Inr st'"
      by (auto split: sum.splits)
    have pre: "set (snd (visitados, pilhaRecursao)) \<subseteq> set (fst (visitados, pilhaRecursao))"
      using p by simp
    from detectar_frame(1)[OF a pre nv] p have s1: "snd st1 = []"
      and m: "finished (visitados, pilhaRecursao) \<subseteq> finished st1"
      by (auto simp: finished_def)
    from detectar_complete(1)[OF a pre nv "2.prems"(3)]
    have i1: "dfs_inv grafo st1" and n1: "no \<in> finished st1" by simp_all
    from "2.IH"(1)[OF False a b s1 i1] have "dfs_inv grafo st'"
      and "finished st1 \<union> set rest \<subseteq> finished st'" by simp_all
    with n1 m show ?thesis by auto
  qed
qed

lemma cyclic_node_is_key:
  assumes "(n, n) \<in> (graph_edges g)\<^sup>+"
  shows "n \<in> set (map_keys g)"
proof -
  from assms obtain m where "(n, m) \<in> graph_edges g" by (auto dest: tranclD)
  then show ?thesis
    by (auto simp: graph_edges_def map_get_def map_keys_def dest: map_of_SomeD
        intro!: image_eqI[where x="(n, _)"])
qed

text \<open>
  The check passes exactly when the graph of the fields (each field id with its
  \<^verbatim>\<open>dependencias\<close>) has no cycle, and the field an error names lies on a cycle.
\<close>

lemma verificarDependenciasCirculares_correct:
  "(verificarDependenciasCirculares cs = Inr ()) = (\<not> cyclic (grafo_de cs))"
  "verificarDependenciasCirculares cs = Inl e \<Longrightarrow>
     \<exists>v. e = DependenciaCircular v \<and> (v, v) \<in> (graph_edges (grafo_de cs))\<^sup>+"
proof -
  let ?g = "grafo_de cs"
  have inv0: "dfs_inv ?g ([], [])" by (simp add: dfs_inv_def finished_def)
  show err: "\<exists>v. e = DependenciaCircular v \<and> (v, v) \<in> (graph_edges ?g)\<^sup>+"
    if "verificarDependenciasCirculares cs = Inl e" for e
  proof -
    from that have "verificar_nos ?g (map_keys ?g) ([], []) = Inl e"
      by (auto simp: verificarDependenciasCirculares_def Let_def split: sum.splits)
    from verificar_nos_sound[OF this] show ?thesis by simp
  qed
  show "(verificarDependenciasCirculares cs = Inr ()) = (\<not> cyclic ?g)"
  proof (cases "verificarDependenciasCirculares cs")
    case (Inl e1)
    from err[OF Inl] have "cyclic ?g" by (auto simp: cyclic_def)
    with Inl show ?thesis by simp
  next
    case (Inr u)
    then obtain st' where "verificar_nos ?g (map_keys ?g) ([], []) = Inr st'"
      by (auto simp: verificarDependenciasCirculares_def Let_def split: sum.splits)
    from verificar_nos_complete[OF this _ inv0]
    have i: "dfs_inv ?g st'" and k: "set (map_keys ?g) \<subseteq> finished st'" by simp_all
    have "\<not> cyclic ?g"
    proof
      assume "cyclic ?g"
      then obtain n where n: "(n, n) \<in> (graph_edges ?g)\<^sup>+" by (auto simp: cyclic_def)
      from cyclic_node_is_key[OF n] k have "n \<in> finished st'" by auto
      with i n show False by (auto simp: dfs_inv_def)
    qed
    with Inr show ?thesis by simp
  qed
qed

end
